theory Spec2Isabelle
  imports Complex_Main "HOL-Library.Sublist" "HOL-Library.Code_Target_Nat"
begin

section \<open>Strings\<close>

text \<open>
  A JavaScript string is a sequence of UTF-16 code units. A code unit is modelled as a
  natural number, a string as the list of its code units, so that \<open>length\<close>, \<open>slice\<close>,
  \<open>includes\<close>, \<open>split\<close> and \<open>trim\<close> count what the source counts. \<open>lit\<close> turns an
  ASCII literal of the source into its code units.
\<close>

type_synonym ustring = "nat list"

definition lit :: "string \<Rightarrow> ustring" where
  "lit s = map of_char s"

text \<open>\<^verbatim>\<open>s.includes(pat)\<close>: \<open>pat\<close> occurs in \<open>s\<close> as a contiguous substring.\<close>

fun str_includes :: "ustring \<Rightarrow> ustring \<Rightarrow> bool" where
  "str_includes [] pat = (pat = [])"
| "str_includes (c # cs) pat = (prefix pat (c # cs) \<or> str_includes cs pat)"

text \<open>
  \<^verbatim>\<open>a || b\<close> where \<open>a\<close> is a string or \<open>undefined\<close> and \<open>b\<close> a string: \<open>undefined\<close> and
  the empty string are falsy.
\<close>

definition str_or :: "ustring option \<Rightarrow> ustring \<Rightarrow> ustring" where
  "str_or a b = (case a of None \<Rightarrow> b | Some s \<Rightarrow> if s = [] then b else s)"

section \<open>The remote model service (services/gemini.ts)\<close>

text \<open>
  The hosted service is outside the program. A call of \<^verbatim>\<open>generateContent\<close> either
  resolves with a response or rejects with an error object; the service is a parameter
  \<open>svc\<close> of every operation, a function from the request sent to that outcome
  (\<open>Inl\<close> the rejection). The operations return the list of requests they issued next to
  their result, so that "the backup tier is never invoked" is a statement about that list.
  The errors thrown by the client library are \<^verbatim>\<open>Error\<close> objects: a \<^verbatim>\<open>message\<close> that is a
  string when present, and an optional numeric \<^verbatim>\<open>status\<close>.
\<close>

datatype BotMode =
  Surfer | Research | Creative | Coder | Visual | Guide | Deal_hunter | Unroller | Trailer | Ideas

record js_error =
  message :: "ustring option"
  status :: "int option"

datatype part = InlineData ustring ustring | TextPart ustring

datatype contents = UserParts "part list" | PlainText ustring

record request =
  model :: ustring
  req_contents :: contents
  googleSearch :: bool
  systemInstruction :: "ustring option"

record WebSource =
  web_uri :: "ustring option"
  web_title :: "ustring option"

record GroundingChunk =
  web :: "WebSource option"

record GroundingMetadata =
  gm_groundingChunks :: "GroundingChunk list option"

record Candidate =
  groundingMetadata :: "GroundingMetadata option"

record GenerateContentResponse =
  resp_text :: "ustring option"
  candidates :: "Candidate list option"

record WebResponse =
  "text" :: ustring
  groundingChunks :: "GroundingChunk list option"

type_synonym service = "request \<Rightarrow> js_error + GenerateContentResponse"

definition CORE_PROTOCOL :: ustring where
  "CORE_PROTOCOL = lit ''gemini-3-flash-preview''"

definition BACKUP_PROTOCOL :: ustring where
  "BACKUP_PROTOCOL = lit ''gemini-3-pro-preview''"


text \<open>
  \<^verbatim>\<open>getProtocolInstruction\<close>: the system instruction. \<open>today\<close> is the formatted current
  date, read from the clock by the source; the mode is not used.
\<close>

definition getProtocolInstruction :: "ustring \<Rightarrow> BotMode \<Rightarrow> ustring" where
  \<open>getProtocolInstruction today mode =
     lit ''\<newline>'' @
     lit ''    IDENTITY: VIOLEN AI.\<newline>'' @
     lit ''    STATUS: ONLINE.\<newline>'' @
     lit ''    CURRENT_DATE: '' @ today @ lit ''.\<newline>'' @
     lit ''    STRICT_MODE: FACT_CHECK_ENABLED.\<newline>'' @
     lit ''    \<newline>'' @
     lit ''    CORE DIRECTIVE: You are a high-end True Crime and Documentary Script Engine. You function as a "Deep Net" scanner, aggregating data from top-tier journalism, police archives, and community forums.\<newline>'' @
     lit ''    \<newline>'' @
     lit ''    SEARCH PROTOCOL - "FULL SPECTRUM SCAN":\<newline>'' @
     lit ''    1. **TIER 1 NEWS**: Prioritize facts from: New York Times, CNN, Yahoo News, Google News, The Washington Post, USA Today, CNBC, AP News, Reuters.\<newline>'' @
     lit ''    2. **COMMUNITY INTEL**: Scan Reddit (r/TrueCrime, r/UnresolvedMysteries, etc.) for theories, timeline clarifications, and local discussions.\<newline>'' @
     lit ''    3. **ARCHIVES & RECORDS**: For historical queries (e.g., "Murders in the 1980s"), search digitized newspaper archives, police reports, and court documents.\<newline>'' @
     lit ''    \<newline>'' @
     lit ''    CRITICAL RULES:\<newline>'' @
     lit ''    1. **TEMPORAL ACCURACY**: You know today is '' @ today @ lit ''. If the user asks for "new" or "current" cases, double-check the event dates. Do not present old cases as new.\<newline>'' @
     lit ''    2. **NO BIAS**: Present the narrative objectively. \<newline>'' @
     lit ''    3. **NO MISINFORMATION**: If sources conflict (e.g., Reddit vs. Police Report), state the conflict clearly.\<newline>'' @
     lit ''    4. **VISUAL EVIDENCE**: You MUST search for actual photos of the people, places, or evidence involved. Use markdown: `![Evidence: Description](URL)`.\<newline>'' @
     lit ''    \<newline>'' @
     lit ''    TONE: Gritty, Professional, Investigative, "YouTube Documentary" Style (e.g. JCS Criminal Psychology, Nexpo, Lemmino).\<newline>'' @
     lit ''  ''\<close>

subsection \<open>queryWebNetwork\<close>

text \<open>
  The parts of the request: the inline binary first, when both the data and its MIME type
  are given and non-empty, then the query text.
\<close>

definition dataPackets :: "ustring \<Rightarrow> ustring option \<Rightarrow> ustring option \<Rightarrow> part list" where
  "dataPackets query visualData visualMimeType =
     (case (visualData, visualMimeType) of
        (Some d, Some m) \<Rightarrow> (if d \<noteq> [] \<and> m \<noteq> [] then [InlineData d m] else [])
      | _ \<Rightarrow> []) @ [TextPart query]"

definition buildRequest ::
  "ustring \<Rightarrow> ustring \<Rightarrow> ustring option \<Rightarrow> ustring option \<Rightarrow> BotMode \<Rightarrow> ustring \<Rightarrow> request" where
  "buildRequest today query visualData visualMimeType activeNode mdl =
     \<lparr> model = mdl,
       req_contents = UserParts (dataPackets query visualData visualMimeType),
       googleSearch = True,
       systemInstruction = Some (getProtocolInstruction today activeNode) \<rparr>"

definition NO_DATA :: ustring where
  "NO_DATA = lit ''NO_DATA_RECEIVED_FROM_VIOLEN''"

text \<open>
  \<^verbatim>\<open>response.candidates?.[0]?.groundingMetadata?.groundingChunks\<close>: every missing link
  of the chain gives \<open>undefined\<close>.
\<close>

definition webSources :: "GenerateContentResponse \<Rightarrow> GroundingChunk list option" where
  "webSources response =
     (case candidates response of
        None \<Rightarrow> None
      | Some [] \<Rightarrow> None
      | Some (c # _) \<Rightarrow>
          (case groundingMetadata c of None \<Rightarrow> None | Some g \<Rightarrow> gm_groundingChunks g))"

text \<open>
  \<^verbatim>\<open>executeRequest(model)\<close>, the closure inside \<^verbatim>\<open>queryWebNetwork\<close>: one call of the
  service. The request is appended to the list of requests sent whatever the outcome.
\<close>

definition executeRequest ::
  "service \<Rightarrow> ustring \<Rightarrow> ustring \<Rightarrow> ustring option \<Rightarrow> ustring option \<Rightarrow> BotMode \<Rightarrow> ustring \<Rightarrow>
   request list \<Rightarrow> (js_error + WebResponse) \<times> request list" where
  "executeRequest svc today query visualData visualMimeType activeNode mdl sent =
     (let req = buildRequest today query visualData visualMimeType activeNode mdl in
      case svc req of
        Inl e \<Rightarrow> (Inl e, sent @ [req])
      | Inr response \<Rightarrow>
          (Inr \<lparr> text = str_or (resp_text response) NO_DATA,
                 groundingChunks = webSources response \<rparr>, sent @ [req]))"

text \<open>
  \<^verbatim>\<open>error.message?.includes('429') || error.status === 429 || error.message?.includes('503')\<close>
\<close>

definition message_includes :: "js_error \<Rightarrow> ustring \<Rightarrow> bool" where
  "message_includes e pat = (case message e of None \<Rightarrow> False | Some m \<Rightarrow> str_includes m pat)"

definition isTrafficError :: "js_error \<Rightarrow> bool" where
  "isTrafficError e =
     (message_includes e (lit ''429'') \<or> status e = Some 429 \<or> message_includes e (lit ''503''))"

definition BACKUP_MARKER :: ustring where
  "BACKUP_MARKER = lit ''\<newline>\<newline>_'' @ [0x2014] @ lit '' [Rerouted via Backup Node]_''"

definition SYSTEM_OVERLOAD :: WebResponse where
  "SYSTEM_OVERLOAD =
     \<lparr> text = lit ''## SYSTEM OVERLOAD\<newline>\<newline>High traffic on all VIOLEN nodes. Please wait 30 seconds.'',
       groundingChunks = Some [] \<rparr>"

definition CONNECTION_ERROR :: WebResponse where
  "CONNECTION_ERROR =
     \<lparr> text = lit ''## CONNECTION ERROR\<newline>\<newline>Unable to reach the VIOLEN Gateway.'',
       groundingChunks = Some [] \<rparr>"

text \<open>
  \<^verbatim>\<open>queryWebNetwork(query, visualData?, visualMimeType?, activeNode = 'surfer')\<close>.
  The result is \<open>Inr\<close> when the promise resolves and \<open>Inl\<close> when it rejects; the second
  component is the list of requests sent to the service, in order.
\<close>

definition defaultNode :: "BotMode option \<Rightarrow> BotMode" where
  "defaultNode activeNode = (case activeNode of None \<Rightarrow> Surfer | Some m \<Rightarrow> m)"

definition queryWebNetwork ::
  "service \<Rightarrow> ustring \<Rightarrow> ustring \<Rightarrow> ustring option \<Rightarrow> ustring option \<Rightarrow> BotMode option \<Rightarrow>
   (js_error + WebResponse) \<times> request list" where
  "queryWebNetwork svc today query visualData visualMimeType activeNode =
     (let node = defaultNode activeNode in
      case executeRequest svc today query visualData visualMimeType node CORE_PROTOCOL [] of
        (Inr r, sent) \<Rightarrow> (Inr r, sent)
      | (Inl error, sent) \<Rightarrow>
          if isTrafficError error then
            (case executeRequest svc today query visualData visualMimeType node BACKUP_PROTOCOL sent of
               (Inr fallbackResponse, sent') \<Rightarrow>
                 (Inr (fallbackResponse\<lparr> text := text fallbackResponse @ BACKUP_MARKER \<rparr>), sent')
             | (Inl fallbackError, sent') \<Rightarrow> (Inr SYSTEM_OVERLOAD, sent'))
          else (Inr CONNECTION_ERROR, sent))"

subsection \<open>transcribeVideo\<close>








subsection \<open>findStockFootage\<close>

text \<open>
  The values \<^verbatim>\<open>JSON.parse\<close> produces. A number is a double that is not NaN: a
  rational or an infinity (the code reads only whether it is zero). An object is the
  list of its own properties, each key once. A JavaScript value that may be
  \<open>undefined\<close> is a \<open>json option\<close>.
\<close>

datatype json_number = Finite rat | PosInfinity | NegInfinity

datatype json =
    JNull
  | JBool bool
  | JNumber json_number
  | JString ustring
  | JArray "json list"
  | JObject "(ustring \<times> json) list"

fun truthy :: "json option \<Rightarrow> bool" where
  "truthy None = False"
| "truthy (Some JNull) = False"
| "truthy (Some (JBool b)) = b"
| "truthy (Some (JNumber (Finite r))) = (r \<noteq> 0)"
| "truthy (Some (JNumber _)) = True"
| "truthy (Some (JString s)) = (s \<noteq> [])"
| "truthy (Some (JArray _)) = True"
| "truthy (Some (JObject _)) = True"

text \<open>\<^verbatim>\<open>a || b\<close> on arbitrary values.\<close>

definition js_or :: "json option \<Rightarrow> json option \<Rightarrow> json option" where
  "js_or a b = (if truthy a then a else b)"

datatype thrown = ServiceError js_error | SyntaxError | TypeError

text \<open>
  \<^verbatim>\<open>item.title\<close>, \<^verbatim>\<open>item.url\<close>, \<^verbatim>\<open>item.source\<close>: reading a property of \<open>null\<close> throws
  a TypeError; an object gives its own property or \<open>undefined\<close>; a boolean, a number, a
  string and an array give \<open>undefined\<close>, since no prototype defines one of these three
  names.
\<close>

fun getProp :: "json \<Rightarrow> ustring \<Rightarrow> thrown + json option" where
  "getProp JNull key = Inl TypeError"
| "getProp (JObject props) key = Inr (map_of props key)"
| "getProp _ key = Inr None"

record StockVideo =
  sv_title :: "json option"
  sv_url :: "json option"
  sv_source :: "json option"

text \<open>The callback of \<^verbatim>\<open>json.map\<close>.\<close>

definition toStockVideo :: "ustring \<Rightarrow> json \<Rightarrow> thrown + StockVideo" where
  "toStockVideo query item =
     (case getProp item (lit ''title'') of
        Inl err \<Rightarrow> Inl err
      | Inr t \<Rightarrow>
     (case getProp item (lit ''url'') of
        Inl err \<Rightarrow> Inl err
      | Inr u \<Rightarrow>
     (case getProp item (lit ''source'') of
        Inl err \<Rightarrow> Inl err
      | Inr s \<Rightarrow>
          Inr \<lparr> sv_title = js_or t (Some (JString query)),
                 sv_url = js_or u (Some (JString (lit ''#''))),
                 sv_source = js_or s (Some (JString (lit ''Web''))) \<rparr>)))"

text \<open>\<^verbatim>\<open>json.map(callback)\<close>: the elements in order; the first throw ends the loop.\<close>

fun mapItems :: "ustring \<Rightarrow> json list \<Rightarrow> thrown + StockVideo list" where
  "mapItems query [] = Inr []"
| "mapItems query (item # items) =
     (case toStockVideo query item of
        Inl err \<Rightarrow> Inl err
      | Inr v \<Rightarrow> (case mapItems query items of Inl err \<Rightarrow> Inl err | Inr vs \<Rightarrow> Inr (v # vs)))"

text \<open>
  \<^verbatim>\<open>text.match(/\[[\s\S]*\]/)\<close>: the leftmost match starts at the first \<^verbatim>\<open>[\<close> that has a
  \<^verbatim>\<open>]\<close> after it, which is the first \<^verbatim>\<open>[\<close> of the text when there is one at all; the
  greedy star then runs to the last \<^verbatim>\<open>]\<close>. Code units 91 and 93.
\<close>

definition matchJsonArray :: "ustring \<Rightarrow> ustring option" where
  "matchJsonArray txt =
     (case dropWhile (\<lambda>c. c \<noteq> 91) txt of
        [] \<Rightarrow> None
      | open_bracket # rest \<Rightarrow>
          (if 93 \<in> set rest
           then Some (open_bracket # rev (dropWhile (\<lambda>c. c \<noteq> 93) (rev rest)))
           else None))"

definition footageRequest :: "ustring \<Rightarrow> request" where
  \<open>footageRequest query =
     \<lparr> model = CORE_PROTOCOL,
       req_contents = PlainText (
     lit ''\<newline>'' @
     lit ''        Search for free stock videos related to "'' @ query @ lit ''".\<newline>'' @
     lit ''        Focus on sources like Pexels, Pixabay, Mixkit, and Coverr.\<newline>'' @
     lit ''        Return a list of 4 videos found.\<newline>'' @
     lit ''        Format the output strictly as a JSON array of objects.\<newline>'' @
     lit ''        Each object must have:\<newline>'' @
     lit ''        - "title": string (description of video)\<newline>'' @
     lit ''        - "url": string (link to the video page)\<newline>'' @
     lit ''        - "source": string (e.g. "Pexels")\<newline>'' @
     lit ''        \<newline>'' @
     lit ''        Do not wrap in markdown code blocks. Just return the raw JSON array.\<newline>'' @
     lit ''      ''),
       googleSearch = True,
       systemInstruction = None \<rparr>\<close>

text \<open>
  The body of the \<^verbatim>\<open>try\<close> block. \<open>parse\<close> is \<^verbatim>\<open>JSON.parse\<close>, a function of the
  platform and a parameter here: \<open>None\<close> when it throws a SyntaxError.
\<close>

definition findStockFootage_try ::
  "(ustring \<Rightarrow> json option) \<Rightarrow> service \<Rightarrow> ustring \<Rightarrow> thrown + StockVideo list" where
  "findStockFootage_try parse svc query =
     (case svc (footageRequest query) of
        Inl e \<Rightarrow> Inl (ServiceError e)
      | Inr response \<Rightarrow>
          (let txt = str_or (resp_text response) [] in
           case matchJsonArray txt of
             None \<Rightarrow> Inr []
           | Some jsonMatch \<Rightarrow>
               (case parse jsonMatch of
                  None \<Rightarrow> Inl SyntaxError
                | Some (JArray items) \<Rightarrow> mapItems query items
                | Some _ \<Rightarrow> Inr [])))"

text \<open>
  \<^verbatim>\<open>findStockFootage(query)\<close>: the \<^verbatim>\<open>catch\<close> block turns every throw into the empty
  list. \<open>Inr\<close> when the promise resolves, \<open>Inl\<close> when it rejects.
\<close>

definition findStockFootage ::
  "(ustring \<Rightarrow> json option) \<Rightarrow> service \<Rightarrow> ustring \<Rightarrow> thrown + StockVideo list" where
  "findStockFootage parse svc query =
     (case findStockFootage_try parse svc query of
        Inl error \<Rightarrow> Inr []
      | Inr videos \<Rightarrow> Inr videos)"

text \<open>
  What the source's defaults make of one element of the array: each field is the
  element's property when that is truthy, the default otherwise, and is never
  \<open>undefined\<close>.
\<close>

definition coerced :: "ustring \<Rightarrow> json \<Rightarrow> StockVideo \<Rightarrow> bool" where
  "coerced query item v \<longleftrightarrow>
     (case (getProp item (lit ''title''), getProp item (lit ''url''), getProp item (lit ''source'')) of
        (Inr t, Inr u, Inr s) \<Rightarrow>
          sv_title v = (if truthy t then t else Some (JString query)) \<and>
          sv_url v = (if truthy u then u else Some (JString (lit ''#''))) \<and>
          sv_source v = (if truthy s then s else Some (JString (lit ''Web''))) \<and>
          sv_title v \<noteq> None \<and> sv_url v \<noteq> None \<and> sv_source v \<noteq> None
      | _ \<Rightarrow> False)"

subsection \<open>Suggestions in a generated script (ScriptMode)\<close>

text \<open>
  The code units \<^verbatim>\<open>trim\<close> removes: the white space and the line terminators of
  ECMAScript.
\<close>

definition is_space :: "nat \<Rightarrow> bool" where
  "is_space c \<longleftrightarrow>
     c = 0x09 \<or> c = 0x0A \<or> c = 0x0B \<or> c = 0x0C \<or> c = 0x0D \<or> c = 0x20 \<or> c = 0xA0 \<or>
     c = 0x1680 \<or> (0x2000 \<le> c \<and> c \<le> 0x200A) \<or> c = 0x2028 \<or> c = 0x2029 \<or>
     c = 0x202F \<or> c = 0x205F \<or> c = 0x3000 \<or> c = 0xFEFF"

definition trim :: "ustring \<Rightarrow> ustring" where
  "trim s = rev (dropWhile is_space (rev (dropWhile is_space s)))"

text \<open>\<^verbatim>\<open>s.split(sep)\<close> for a separator of one code unit: never the empty list.\<close>

fun splitOn :: "nat \<Rightarrow> ustring \<Rightarrow> ustring list" where
  "splitOn sep [] = [[]]"
| "splitOn sep (c # cs) =
     (if c = sep then [] # splitOn sep cs
      else (case splitOn sep cs of [] \<Rightarrow> [[c]] | l # ls \<Rightarrow> (c # l) # ls))"

text \<open>\<^verbatim>\<open>s.replace(pat, rep)\<close> with a string pattern: the first occurrence only.\<close>

fun replaceFirst :: "ustring \<Rightarrow> ustring \<Rightarrow> ustring \<Rightarrow> ustring" where
  "replaceFirst pat rep [] = (if pat = [] then rep else [])"
| "replaceFirst pat rep (c # cs) =
     (if prefix pat (c # cs) then rep @ drop (length pat) (c # cs)
      else c # replaceFirst pat rep cs)"

definition SUGGESTION_MARKER :: ustring where
  "SUGGESTION_MARKER = lit ''> SUGGESTION:''"

text \<open>The body of the \<^verbatim>\<open>forEach\<close> callback: \<open>found\<close> is \<^verbatim>\<open>foundSuggestions\<close>.\<close>

definition collectSuggestion :: "ustring list \<Rightarrow> ustring \<Rightarrow> ustring list" where
  "collectSuggestion found line =
     (if str_includes line SUGGESTION_MARKER then
        (let title = trim (replaceFirst SUGGESTION_MARKER [] line) in
         if title \<noteq> [] then found @ [title] else found)
      else found)"

text \<open>
  The effect that parses the suggestions out of \<^verbatim>\<open>generatedScript\<close>: its result is the
  new value of the \<^verbatim>\<open>suggestions\<close> state.
\<close>

definition parseSuggestions :: "ustring \<Rightarrow> ustring list" where
  "parseSuggestions generatedScript =
     (if generatedScript = [] then []
      else foldl collectSuggestion [] (splitOn 10 generatedScript))"

text \<open>
  The text whose lines are \<open>ls\<close>, joined by the separator: the inverse of \<open>splitOn\<close>,
  used to state properties of it.
\<close>

fun joinWith :: "nat \<Rightarrow> ustring list \<Rightarrow> ustring" where
  "joinWith sep [] = []"
| "joinWith sep [l] = l"
| "joinWith sep (l # l' # ls) = l @ sep # joinWith sep (l' # ls)"

section \<open>Media components (MessageBubble, ScriptMode)\<close>

text \<open>
  A component instance is its state and three functions of the source: the render
  function, the effect that runs once after the first render, and the handlers of the
  events of the probe image. The state carries, next to the value of \<^verbatim>\<open>useState\<close>, the
  probe in flight (the URL given to \<^verbatim>\<open>img.src\<close> of a \<^verbatim>\<open>new Image()\<close>, until one of its
  two events has fired) and the list of all probes started. An instance is mounted with
  fixed properties.
\<close>

subsection \<open>Images\<close>

datatype status = Loading | Loaded | Error

record image_state =
  img_status :: status
  img_pending :: "ustring option"
  img_loads :: "ustring list"

datatype image_event = OnLoad | OnError

text \<open>What a render returns; the two elements that hold an \<^verbatim>\<open><img>\<close> carry its \<^verbatim>\<open>src\<close>.\<close>

datatype image_view =
    ViewSourceCard ustring ustring
  | PreviewUnavailableCard ustring ustring
  | LoadingPlaceholder
  | ImageElement ustring "ustring option"
  | EvidencePhoto ustring "ustring option" ustring
  | RenderNothing

text \<open>\<^verbatim>\<open>src.includes('wiki/File:') || src.includes('wiki/Image:')\<close>\<close>

definition isWikiWrapper :: "ustring \<Rightarrow> bool" where
  "isWikiWrapper src \<longleftrightarrow>
     str_includes src (lit ''wiki/File:'') \<or> str_includes src (lit ''wiki/Image:'')"

definition image_initial :: image_state where
  "image_initial = \<lparr> img_status = Loading, img_pending = None, img_loads = [] \<rparr>"

text \<open>
  The effect of \<^verbatim>\<open>MarkdownImageComponent\<close> and of \<^verbatim>\<open>ScriptImage\<close> (the same code in
  both): no source or a wiki wrapper page gives \<open>Error\<close> at once; otherwise a probe
  image is started.
\<close>

definition image_effect :: "ustring option \<Rightarrow> image_state \<Rightarrow> image_state" where
  "image_effect src st =
     (case src of
        None \<Rightarrow> st\<lparr> img_status := Error \<rparr>
      | Some s \<Rightarrow>
          if s = [] then st\<lparr> img_status := Error \<rparr>
          else if isWikiWrapper s then st\<lparr> img_status := Error \<rparr>
          else st\<lparr> img_pending := Some s, img_loads := img_loads st @ [s] \<rparr>)"

text \<open>\<^verbatim>\<open>img.onload\<close> and \<^verbatim>\<open>img.onerror\<close>: an event fires only for a probe in flight.\<close>

definition image_step :: "image_state \<Rightarrow> image_event \<Rightarrow> image_state" where
  "image_step st ev =
     (case img_pending st of
        None \<Rightarrow> st
      | Some _ \<Rightarrow>
          (case ev of
             OnLoad \<Rightarrow> st\<lparr> img_status := Loaded, img_pending := None \<rparr>
           | OnError \<Rightarrow> st\<lparr> img_status := Error, img_pending := None \<rparr>))"

text \<open>The states an instance goes through: each is rendered.\<close>

fun run_events :: "('s \<Rightarrow> 'e \<Rightarrow> 's) \<Rightarrow> 's \<Rightarrow> 'e list \<Rightarrow> 's list" where
  "run_events step st [] = [st]"
| "run_events step st (ev # evs) = st # run_events step (step st ev) evs"

definition image_lifecycle :: "ustring option \<Rightarrow> image_event list \<Rightarrow> image_state list" where
  "image_lifecycle src evs = image_initial # run_events image_step (image_effect src image_initial) evs"

text \<open>The render function of \<^verbatim>\<open>MarkdownImageComponent\<close>.\<close>

definition MarkdownImage_render :: "ustring option \<Rightarrow> ustring option \<Rightarrow> status \<Rightarrow> image_view" where
  "MarkdownImage_render src alt st =
     (case src of
        None \<Rightarrow> PreviewUnavailableCard (str_or alt (lit ''image'')) (str_or alt (lit ''Source blocked''))
      | Some s \<Rightarrow>
          if s \<noteq> [] \<and> isWikiWrapper s then ViewSourceCard s (str_or alt (lit ''Wikipedia Image''))
          else if st = Error \<or> s = [] then
            PreviewUnavailableCard (str_or alt (lit ''image'')) (str_or alt (lit ''Source blocked''))
          else if st = Loading then LoadingPlaceholder
          else ImageElement s alt)"

text \<open>
  The render function of \<^verbatim>\<open>ScriptImage\<close>. The caption is
  \<^verbatim>\<open>alt?.replace('Visual Evidence:', '').trim() || 'Exhibit A'\<close>.
\<close>

definition ScriptImage_render :: "ustring option \<Rightarrow> ustring option \<Rightarrow> status \<Rightarrow> image_view" where
  "ScriptImage_render src alt st =
     (case src of
        None \<Rightarrow> RenderNothing
      | Some s \<Rightarrow>
          if st = Error \<or> s = [] then RenderNothing
          else if st = Loading then LoadingPlaceholder
          else EvidencePhoto s alt
                 (str_or (map_option (\<lambda>a. trim (replaceFirst (lit ''Visual Evidence:'') [] a)) alt)
                    (lit ''Exhibit A'')))"

subsection \<open>Video links\<close>

text \<open>\<^verbatim>\<open>[\w-]\<close>: an ASCII letter, a digit, the underscore or the hyphen.\<close>

definition is_id_char :: "nat \<Rightarrow> bool" where
  "is_id_char c \<longleftrightarrow>
     (48 \<le> c \<and> c \<le> 57) \<or> (65 \<le> c \<and> c \<le> 90) \<or> (97 \<le> c \<and> c \<le> 122) \<or> c = 95 \<or> c = 45"

text \<open>\<^verbatim>\<open>([\w-]{11})\<close> at the start of \<open>s\<close>.\<close>

definition take_id :: "ustring \<Rightarrow> ustring option" where
  "take_id s = (if 11 \<le> length s \<and> list_all is_id_char (take 11 s) then Some (take 11 s) else None)"

text \<open>
  \<^verbatim>\<open>\S+([\w-]{11})\<close> at the start of \<open>s\<close>: the greedy \<^verbatim>\<open>\S+\<close> takes the whole run of
  non-space code units and gives back one at a time, so the identifier is the last window
  of eleven identifier characters in the run that leaves at least one code unit before
  it. \<open>last_id_from k s\<close> tries the offsets \<open>k\<close>, \<open>k - 1\<close>, ..., \<open>1\<close>.
\<close>

fun last_id_from :: "nat \<Rightarrow> ustring \<Rightarrow> ustring option" where
  "last_id_from 0 s = None"
| "last_id_from (Suc k) s =
     (case take_id (drop (Suc k) s) of Some v \<Rightarrow> Some v | None \<Rightarrow> last_id_from k s)"

definition user_id :: "ustring \<Rightarrow> ustring option" where
  "user_id s = last_id_from (length (takeWhile (\<lambda>c. \<not> is_space c) s) - 11) s"

text \<open>
  The regular expression of \<^verbatim>\<open>getVideoId\<close>, anchored at the start of \<open>s\<close>:
  \<^verbatim>\<open>(?:youtu\.be\/|youtube\.com(?:\/embed\/|\/v\/|\/watch\?v=|\/user\/\S+|\/ytscreeningroom\?v=|\/shorts\/))([\w-]{11})\<close>.
  No alternative is a prefix of another, so at most one of them applies.
\<close>

definition match_here :: "ustring \<Rightarrow> ustring option" where
  "match_here s =
     (if prefix (lit ''youtu.be/'') s then take_id (drop 9 s)
      else if prefix (lit ''youtube.com'') s then
        (let r = drop 11 s in
         if prefix (lit ''/embed/'') r then take_id (drop 7 r)
         else if prefix (lit ''/v/'') r then take_id (drop 3 r)
         else if prefix (lit ''/watch?v='') r then take_id (drop 9 r)
         else if prefix (lit ''/user/'') r then user_id (drop 6 r)
         else if prefix (lit ''/ytscreeningroom?v='') r then take_id (drop 19 r)
         else if prefix (lit ''/shorts/'') r then take_id (drop 8 r)
         else None)
      else None)"

text \<open>\<^verbatim>\<open>url.match(...)\<close>: the leftmost position at which the expression matches.\<close>

fun first_match :: "ustring \<Rightarrow> ustring option" where
  "first_match [] = None"
| "first_match (c # cs) =
     (case match_here (c # cs) of Some v \<Rightarrow> Some v | None \<Rightarrow> first_match cs)"

definition getVideoId :: "ustring \<Rightarrow> ustring option" where
  "getVideoId url = (if url = [] then None else first_match url)"

text \<open>The \<^verbatim>\<open>title\<close> property is a React node: a string or something else.\<close>

datatype react_node = StringNode ustring | OtherNode

record embed_state =
  isValid :: "bool option"
  thumb_pending :: "ustring option"
  thumb_loads :: "ustring list"

text \<open>The events of the thumbnail image: \<^verbatim>\<open>onload\<close> with \<^verbatim>\<open>img.width\<close>, and \<^verbatim>\<open>onerror\<close>.\<close>

datatype thumb_event = ThumbLoad nat | ThumbError

text \<open>
  What a render returns: nothing, the restricted card with the text its search link
  is seeded with, the placeholder shown while verifying, or the embedded player with the
  \<^verbatim>\<open>src\<close> of its \<^verbatim>\<open>iframe\<close>.
\<close>

datatype embed_view =
    EmbedNothing
  | VideoRestrictedCard ustring
  | Verifying
  | IframePlayer ustring

definition embed_initial :: embed_state where
  "embed_initial = \<lparr> isValid = None, thumb_pending = None, thumb_loads = [] \<rparr>"

definition thumbnailUrl :: "ustring \<Rightarrow> ustring" where
  "thumbnailUrl videoId = lit ''https://i.ytimg.com/vi/'' @ videoId @ lit ''/hqdefault.jpg''"

definition embed_effect :: "ustring \<Rightarrow> embed_state \<Rightarrow> embed_state" where
  "embed_effect url st =
     (case getVideoId url of
        None \<Rightarrow> st\<lparr> isValid := Some False \<rparr>
      | Some videoId \<Rightarrow>
          st\<lparr> thumb_pending := Some (thumbnailUrl videoId),
              thumb_loads := thumb_loads st @ [thumbnailUrl videoId] \<rparr>)"

definition embed_step :: "embed_state \<Rightarrow> thumb_event \<Rightarrow> embed_state" where
  "embed_step st ev =
     (case thumb_pending st of
        None \<Rightarrow> st
      | Some _ \<Rightarrow>
          (case ev of
             ThumbLoad width \<Rightarrow> st\<lparr> isValid := Some (width > 120), thumb_pending := None \<rparr>
           | ThumbError \<Rightarrow> st\<lparr> isValid := Some False, thumb_pending := None \<rparr>))"

definition embed_lifecycle :: "ustring \<Rightarrow> thumb_event list \<Rightarrow> embed_state list" where
  "embed_lifecycle url evs = embed_initial # run_events embed_step (embed_effect url embed_initial) evs"

text \<open>The render function of \<^verbatim>\<open>YouTubeEmbedComponent\<close>.\<close>

definition YouTubeEmbed_render :: "ustring \<Rightarrow> react_node option \<Rightarrow> bool option \<Rightarrow> embed_view" where
  "YouTubeEmbed_render url title valid =
     (case getVideoId url of
        None \<Rightarrow> EmbedNothing
      | Some videoId \<Rightarrow>
          (case valid of
             Some False \<Rightarrow>
               VideoRestrictedCard
                 (case title of Some (StringNode t) \<Rightarrow> t | _ \<Rightarrow> lit ''related video'')
           | None \<Rightarrow> Verifying
           | Some True \<Rightarrow>
               IframePlayer (lit ''https://www.youtube.com/embed/'' @ videoId @
                             lit ''?autoplay=0&rel=0&modestbranding=1'')))"

section \<open>Saved chat sessions (ChatMode)\<close>

datatype role = User | Model

record ChatSource =
  src_title :: "ustring option"
  src_uri :: "ustring option"

record ChatMessage =
  msg_id :: ustring
  msg_role :: role
  msg_text :: ustring
  msg_imageUrl :: "ustring option"
  msg_timestamp :: int
  msg_sources :: "ChatSource list option"

record ChatSession =
  session_id :: ustring
  session_title :: ustring
  session_messages :: "ChatMessage list"
  session_timestamp :: int

text \<open>\<^verbatim>\<open>localStorage\<close>: a store of strings under string keys.\<close>

type_synonym storage = "ustring \<rightharpoonup> ustring"

definition CHAT_ARCHIVE_KEY :: ustring where
  "CHAT_ARCHIVE_KEY = lit ''violen_chat_archives''"

text \<open>The part of the state of \<^verbatim>\<open>ChatMode\<close> that the archive uses.\<close>

record chat_state =
  archives :: "ChatSession list"
  isArchivesOpen :: bool

definition chat_initial :: chat_state where
  "chat_initial = \<lparr> archives = [], isArchivesOpen = False \<rparr>"

text \<open>\<^verbatim>\<open>n.toString()\<close> for an integer: its decimal digits, with a sign when negative.\<close>

fun digits :: "nat \<Rightarrow> ustring" where
  "digits n = (if n < 10 then [48 + n] else digits (n div 10) @ [48 + n mod 10])"

definition int_toString :: "int \<Rightarrow> ustring" where
  "int_toString i = (if i < 0 then 45 # digits (nat (- i)) else digits (nat i))"

text \<open>
  The session that \<^verbatim>\<open>saveCurrentSession\<close> builds from a non-empty list of messages;
  \<open>now_id\<close> and \<open>now_ts\<close> are the two readings of \<^verbatim>\<open>Date.now()\<close>.
\<close>

definition newSession :: "int \<Rightarrow> int \<Rightarrow> ChatMessage \<Rightarrow> ChatMessage list \<Rightarrow> ChatSession" where
  "newSession now_id now_ts first messages =
     (let title = take 40 (msg_text first) @ (if length (msg_text first) > 40 then lit ''...'' else [])
      in \<lparr> session_id = int_toString now_id,
           session_title = str_or (Some title) (lit ''Untitled Investigation''),
           session_messages = messages,
           session_timestamp = now_ts \<rparr>)"

text \<open>
  \<^verbatim>\<open>saveCurrentSession\<close>. \<open>stringify\<close> is \<^verbatim>\<open>JSON.stringify\<close> on a list of sessions, a
  function of the platform and a parameter here. The result is the new state and the new
  store.
\<close>

definition saveCurrentSession ::
  "(ChatSession list \<Rightarrow> ustring) \<Rightarrow> int \<Rightarrow> int \<Rightarrow> ChatMessage list \<Rightarrow> chat_state \<Rightarrow> storage \<Rightarrow>
   chat_state \<times> storage" where
  "saveCurrentSession stringify now_id now_ts messages st store =
     (case messages of
        [] \<Rightarrow> (st, store)
      | first # _ \<Rightarrow>
          (let session = newSession now_id now_ts first messages;
               newArchives = session # archives st
           in (st\<lparr> archives := newArchives, isArchivesOpen := True \<rparr>,
               store(CHAT_ARCHIVE_KEY \<mapsto> stringify newArchives))))"

text \<open>
  The effect that loads the archives when the component mounts. \<open>parse\<close> is
  \<^verbatim>\<open>JSON.parse\<close> read at the type of the archive list: \<open>None\<close> when it throws.
\<close>

definition loadArchives ::
  "(ustring \<Rightarrow> ChatSession list option) \<Rightarrow> storage \<Rightarrow> chat_state \<Rightarrow> chat_state" where
  "loadArchives parse store st =
     (case store CHAT_ARCHIVE_KEY of
        None \<Rightarrow> st
      | Some stored \<Rightarrow>
          if stored = [] then st
          else (case parse stored of None \<Rightarrow> st | Some loaded \<Rightarrow> st\<lparr> archives := loaded \<rparr>))"

section \<open>A reference JSON codec\<close>

text \<open>
  \<^verbatim>\<open>JSON.stringify\<close> and \<^verbatim>\<open>JSON.parse\<close> belong to the platform and are parameters of the
  operations above. This section gives one implementation of each, after ECMA-262 and
  the JSON grammar, to instantiate those parameters: the serialisation of the archive
  list, and a parser for JSON texts. The parser reads numbers exactly, as rationals; the
  platform rounds to a double, which is the same value for the integers below \<open>2^53\<close>
  that occur here.
\<close>

subsection \<open>Serialisation\<close>

definition hexdigit :: "nat \<Rightarrow> nat" where
  "hexdigit n = (if n < 10 then 48 + n else 87 + n)"

definition unicode_escape :: "nat \<Rightarrow> ustring" where
  "unicode_escape c =
     [92, 117, hexdigit (c div 4096 mod 16), hexdigit (c div 256 mod 16),
      hexdigit (c div 16 mod 16), hexdigit (c mod 16)]"

definition is_high_surrogate :: "nat \<Rightarrow> bool" where
  "is_high_surrogate c \<longleftrightarrow> 0xD800 \<le> c \<and> c \<le> 0xDBFF"

definition is_low_surrogate :: "nat \<Rightarrow> bool" where
  "is_low_surrogate c \<longleftrightarrow> 0xDC00 \<le> c \<and> c \<le> 0xDFFF"

text \<open>One code unit inside a JSON string, outside a surrogate pair.\<close>

definition quote_unit :: "nat \<Rightarrow> ustring" where
  "quote_unit c =
     (if c = 8 then [92, 98] else if c = 9 then [92, 116] else if c = 10 then [92, 110]
      else if c = 12 then [92, 102] else if c = 13 then [92, 114]
      else if c = 34 then [92, 34] else if c = 92 then [92, 92]
      else if c < 32 \<or> is_high_surrogate c \<or> is_low_surrogate c then unicode_escape c
      else [c])"

fun quote_body :: "ustring \<Rightarrow> ustring" where
  "quote_body [] = []"
| "quote_body [c] = quote_unit c"
| "quote_body (c # d # cs) =
     (if is_high_surrogate c \<and> is_low_surrogate d then c # d # quote_body cs
      else quote_unit c @ quote_body (d # cs))"

definition quoteJSONString :: "ustring \<Rightarrow> ustring" where
  "quoteJSONString s = 34 # quote_body s @ [34]"

definition json_member :: "string \<Rightarrow> ustring \<Rightarrow> ustring" where
  "json_member key val = 34 # lit key @ [34, 58] @ val"

definition json_object :: "ustring list \<Rightarrow> ustring" where
  "json_object members = 123 # joinWith 44 members @ [125]"

definition json_array :: "ustring list \<Rightarrow> ustring" where
  "json_array elements = 91 # joinWith 44 elements @ [93]"

text \<open>A property whose value is \<open>undefined\<close> is left out.\<close>

definition optional_member :: "string \<Rightarrow> ('a \<Rightarrow> ustring) \<Rightarrow> 'a option \<Rightarrow> ustring list" where
  "optional_member key enc v = (case v of None \<Rightarrow> [] | Some x \<Rightarrow> [json_member key (enc x)])"

definition stringifySource :: "ChatSource \<Rightarrow> ustring" where
  "stringifySource s =
     json_object (optional_member ''title'' quoteJSONString (src_title s) @
                  optional_member ''uri'' quoteJSONString (src_uri s))"

definition stringifyRole :: "role \<Rightarrow> ustring" where
  "stringifyRole r = quoteJSONString (case r of User \<Rightarrow> lit ''user'' | Model \<Rightarrow> lit ''model'')"

definition stringifyMessage :: "ChatMessage \<Rightarrow> ustring" where
  "stringifyMessage m =
     json_object
       ([json_member ''id'' (quoteJSONString (msg_id m)),
         json_member ''role'' (stringifyRole (msg_role m)),
         json_member ''text'' (quoteJSONString (msg_text m))] @
        optional_member ''imageUrl'' quoteJSONString (msg_imageUrl m) @
        [json_member ''timestamp'' (int_toString (msg_timestamp m))] @
        optional_member ''sources'' (\<lambda>ss. json_array (map stringifySource ss)) (msg_sources m))"

definition stringifySession :: "ChatSession \<Rightarrow> ustring" where
  "stringifySession s =
     json_object
       [json_member ''id'' (quoteJSONString (session_id s)),
        json_member ''title'' (quoteJSONString (session_title s)),
        json_member ''messages'' (json_array (map stringifyMessage (session_messages s))),
        json_member ''timestamp'' (int_toString (session_timestamp s))]"

definition stringifySessions :: "ChatSession list \<Rightarrow> ustring" where
  "stringifySessions xs = json_array (map stringifySession xs)"

subsection \<open>Parsing\<close>

definition is_json_ws :: "nat \<Rightarrow> bool" where
  "is_json_ws c \<longleftrightarrow> c = 32 \<or> c = 9 \<or> c = 10 \<or> c = 13"

definition skip_ws :: "ustring \<Rightarrow> ustring" where
  "skip_ws s = dropWhile is_json_ws s"

definition is_digit :: "nat \<Rightarrow> bool" where
  "is_digit c \<longleftrightarrow> 48 \<le> c \<and> c \<le> 57"

definition hexval :: "nat \<Rightarrow> nat option" where
  "hexval c =
     (if 48 \<le> c \<and> c \<le> 57 then Some (c - 48)
      else if 65 \<le> c \<and> c \<le> 70 then Some (c - 55)
      else if 97 \<le> c \<and> c \<le> 102 then Some (c - 87)
      else None)"

text \<open>The code unit that follows a backslash, other than \<^verbatim>\<open>u\<close>.\<close>

definition unescape :: "nat \<Rightarrow> nat option" where
  "unescape c =
     (if c = 34 then Some 34 else if c = 92 then Some 92 else if c = 47 then Some 47
      else if c = 98 then Some 8 else if c = 102 then Some 12 else if c = 110 then Some 10
      else if c = 114 then Some 13 else if c = 116 then Some 9 else None)"

datatype scan_mode = Plain | Escaped | Hex nat nat

definition cons_unit :: "nat \<Rightarrow> (ustring \<times> ustring) option \<Rightarrow> (ustring \<times> ustring) option" where
  "cons_unit c r = map_option (\<lambda>(s, rest). (c # s, rest)) r"

text \<open>
  A string, from after its opening quote: the contents and the text after the closing
  quote. \<open>Hex k acc\<close> is inside a \<^verbatim>\<open>\u\<close> escape with \<open>k\<close> digits to go.
\<close>

fun scan_string :: "scan_mode \<Rightarrow> ustring \<Rightarrow> (ustring \<times> ustring) option" where
  "scan_string mode [] = None"
| "scan_string Plain (c # cs) =
     (if c = 34 then Some ([], cs)
      else if c = 92 then scan_string Escaped cs
      else if c < 32 then None
      else cons_unit c (scan_string Plain cs))"
| "scan_string Escaped (c # cs) =
     (if c = 117 then scan_string (Hex 4 0) cs
      else (case unescape c of None \<Rightarrow> None | Some v \<Rightarrow> cons_unit v (scan_string Plain cs)))"
| "scan_string (Hex k acc) (c # cs) =
     (case hexval c of
        None \<Rightarrow> None
      | Some h \<Rightarrow>
          if k \<le> 1 then cons_unit (16 * acc + h) (scan_string Plain cs)
          else scan_string (Hex (k - 1) (16 * acc + h)) cs)"

definition digits_value :: "ustring \<Rightarrow> nat" where
  "digits_value ds = foldl (\<lambda>acc c. 10 * acc + (c - 48)) 0 ds"

text \<open>The integer part: a single \<^verbatim>\<open>0\<close>, or a digit from 1 to 9 and the digits after it.\<close>

definition scan_int_part :: "ustring \<Rightarrow> (ustring \<times> ustring) option" where
  "scan_int_part s =
     (case s of
        [] \<Rightarrow> None
      | c # cs \<Rightarrow>
          if c = 48 then Some ([48], cs)
          else if is_digit c then Some (takeWhile is_digit s, dropWhile is_digit s)
          else None)"

definition scan_fraction :: "ustring \<Rightarrow> (ustring \<times> ustring) option" where
  "scan_fraction s =
     (case s of
        [] \<Rightarrow> Some ([], s)
      | c # cs \<Rightarrow>
          if c = 46 then
            (if takeWhile is_digit cs = [] then None
             else Some (takeWhile is_digit cs, dropWhile is_digit cs))
          else Some ([], s))"

definition scan_exponent :: "ustring \<Rightarrow> (int \<times> ustring) option" where
  "scan_exponent s =
     (case s of
        [] \<Rightarrow> Some (0, s)
      | c # cs \<Rightarrow>
          if c = 101 \<or> c = 69 then
            (let (neg, ds) = (case cs of
                                [] \<Rightarrow> (False, cs)
                              | d # r \<Rightarrow> if d = 45 then (True, r) else if d = 43 then (False, r)
                                         else (False, cs))
             in if takeWhile is_digit ds = [] then None
                else Some ((if neg then - 1 else 1) * int (digits_value (takeWhile is_digit ds)),
                           dropWhile is_digit ds))
          else Some (0, s))"

definition pow10 :: "int \<Rightarrow> rat" where
  "pow10 e = (if e < 0 then 1 / 10 ^ nat (- e) else 10 ^ nat e)"

definition parse_number :: "ustring \<Rightarrow> (json_number \<times> ustring) option" where
  "parse_number s =
     (let (neg, s1) = (case s of [] \<Rightarrow> (False, s) | c # cs \<Rightarrow> if c = 45 then (True, cs) else (False, s))
      in case scan_int_part s1 of
           None \<Rightarrow> None
         | Some (ip, s2) \<Rightarrow>
             (case scan_fraction s2 of
                None \<Rightarrow> None
              | Some (fp, s3) \<Rightarrow>
                  (case scan_exponent s3 of
                     None \<Rightarrow> None
                   | Some (e, s4) \<Rightarrow>
                       Some (Finite ((if neg then - 1 else 1) *
                                     (of_nat (digits_value ip) +
                                      of_nat (digits_value fp) / 10 ^ length fp) * pow10 e),
                             s4))))"

text \<open>A later member with the same key replaces the value of the earlier one.\<close>

fun put_member :: "ustring \<Rightarrow> json \<Rightarrow> (ustring \<times> json) list \<Rightarrow> (ustring \<times> json) list" where
  "put_member k v [] = [(k, v)]"
| "put_member k v ((k', v') # kvs) =
     (if k = k' then (k, v) # kvs else (k', v') # put_member k v kvs)"

definition object_of_members :: "(ustring \<times> json) list \<Rightarrow> json" where
  "object_of_members kvs = JObject (foldl (\<lambda>acc (k, v). put_member k v acc) [] kvs)"

text \<open>
  A value, the elements of an array after its bracket, and the members of an object
  after its brace, each with the text that follows. The first argument bounds the depth
  of the recursion; \<open>parseJSON\<close> gives one that suffices for the whole text.
\<close>

fun parse_value :: "nat \<Rightarrow> ustring \<Rightarrow> (json \<times> ustring) option"
  and parse_elements :: "nat \<Rightarrow> ustring \<Rightarrow> (json list \<times> ustring) option"
  and parse_members :: "nat \<Rightarrow> ustring \<Rightarrow> ((ustring \<times> json) list \<times> ustring) option" where
  "parse_value 0 s = None"
| "parse_value (Suc n) s =
     (case skip_ws s of
        [] \<Rightarrow> None
      | c # r \<Rightarrow>
          if c = 34 then map_option (\<lambda>(str, rest). (JString str, rest)) (scan_string Plain r)
          else if c = 91 then
            (case skip_ws r of
               [] \<Rightarrow> None
             | d # r' \<Rightarrow>
                 if d = 93 then Some (JArray [], r')
                 else map_option (\<lambda>(vs, rest). (JArray vs, rest)) (parse_elements n r))
          else if c = 123 then
            (case skip_ws r of
               [] \<Rightarrow> None
             | d # r' \<Rightarrow>
                 if d = 125 then Some (JObject [], r')
                 else map_option (\<lambda>(kvs, rest). (object_of_members kvs, rest)) (parse_members n r))
          else if prefix (lit ''null'') (c # r) then Some (JNull, drop 4 (c # r))
          else if prefix (lit ''true'') (c # r) then Some (JBool True, drop 4 (c # r))
          else if prefix (lit ''false'') (c # r) then Some (JBool False, drop 5 (c # r))
          else map_option (\<lambda>(num, rest). (JNumber num, rest)) (parse_number (c # r)))"
| "parse_elements 0 s = None"
| "parse_elements (Suc n) s =
     (case parse_value n s of
        None \<Rightarrow> None
      | Some (v, r) \<Rightarrow>
          (case skip_ws r of
             [] \<Rightarrow> None
           | d # r' \<Rightarrow>
               if d = 44 then map_option (\<lambda>(vs, rest). (v # vs, rest)) (parse_elements n r')
               else if d = 93 then Some ([v], r')
               else None))"
| "parse_members 0 s = None"
| "parse_members (Suc n) s =
     (case skip_ws s of
        [] \<Rightarrow> None
      | q # r \<Rightarrow>
          if q \<noteq> 34 then None
          else (case scan_string Plain r of
                  None \<Rightarrow> None
                | Some (k, r1) \<Rightarrow>
                    (case skip_ws r1 of
                       [] \<Rightarrow> None
                     | colon # r2 \<Rightarrow>
                         if colon \<noteq> 58 then None
                         else (case parse_value n r2 of
                                 None \<Rightarrow> None
                               | Some (v, r3) \<Rightarrow>
                                   (case skip_ws r3 of
                                      [] \<Rightarrow> None
                                    | d # r4 \<Rightarrow>
                                        if d = 44 then
                                          map_option (\<lambda>(kvs, rest). ((k, v) # kvs, rest))
                                            (parse_members n r4)
                                        else if d = 125 then Some ([(k, v)], r4)
                                        else None)))))"

definition parseJSON :: "ustring \<Rightarrow> json option" where
  "parseJSON s =
     (case parse_value (2 * length s + 2) s of
        None \<Rightarrow> None
      | Some (v, rest) \<Rightarrow> if skip_ws rest = [] then Some v else None)"

subsection \<open>Reading a parsed value as the archive list\<close>

text \<open>
  The source uses the parsed value at the type \<^verbatim>\<open>ChatSession[]\<close> without a check. The
  functions below read a JSON value at that type; \<open>None\<close> when it has another shape.
\<close>

definition string_field :: "(ustring \<times> json) list \<Rightarrow> string \<Rightarrow> ustring option" where
  "string_field kvs key = (case map_of kvs (lit key) of Some (JString s) \<Rightarrow> Some s | _ \<Rightarrow> None)"

definition optional_string_field :: "(ustring \<times> json) list \<Rightarrow> string \<Rightarrow> ustring option option" where
  "optional_string_field kvs key =
     (case map_of kvs (lit key) of
        None \<Rightarrow> Some None
      | Some (JString s) \<Rightarrow> Some (Some s)
      | _ \<Rightarrow> None)"

definition int_field :: "(ustring \<times> json) list \<Rightarrow> string \<Rightarrow> int option" where
  "int_field kvs key =
     (case map_of kvs (lit key) of
        Some (JNumber (Finite r)) \<Rightarrow> if r = of_int \<lfloor>r\<rfloor> then Some \<lfloor>r\<rfloor> else None
      | _ \<Rightarrow> None)"

definition asSource :: "json \<Rightarrow> ChatSource option" where
  "asSource v =
     (case v of
        JObject kvs \<Rightarrow>
          (case (optional_string_field kvs ''title'', optional_string_field kvs ''uri'') of
             (Some t, Some u) \<Rightarrow> Some \<lparr> src_title = t, src_uri = u \<rparr>
           | _ \<Rightarrow> None)
      | _ \<Rightarrow> None)"

definition asRole :: "ustring \<Rightarrow> role option" where
  "asRole s = (if s = lit ''user'' then Some User else if s = lit ''model'' then Some Model else None)"

definition sources_field :: "(ustring \<times> json) list \<Rightarrow> ChatSource list option option" where
  "sources_field kvs =
     (case map_of kvs (lit ''sources'') of
        None \<Rightarrow> Some None
      | Some (JArray vs) \<Rightarrow> map_option Some (those (map asSource vs))
      | _ \<Rightarrow> None)"

definition asMessage :: "json \<Rightarrow> ChatMessage option" where
  "asMessage v =
     (case v of
        JObject kvs \<Rightarrow>
          (case (string_field kvs ''id'', Option.bind (string_field kvs ''role'') asRole,
                 string_field kvs ''text'', optional_string_field kvs ''imageUrl'',
                 int_field kvs ''timestamp'', sources_field kvs) of
             (Some i, Some r, Some t, Some img, Some ts, Some srcs) \<Rightarrow>
               Some \<lparr> msg_id = i, msg_role = r, msg_text = t, msg_imageUrl = img,
                      msg_timestamp = ts, msg_sources = srcs \<rparr>
           | _ \<Rightarrow> None)
      | _ \<Rightarrow> None)"

definition messages_field :: "(ustring \<times> json) list \<Rightarrow> ChatMessage list option" where
  "messages_field kvs =
     (case map_of kvs (lit ''messages'') of
        Some (JArray vs) \<Rightarrow> those (map asMessage vs)
      | _ \<Rightarrow> None)"

definition asSession :: "json \<Rightarrow> ChatSession option" where
  "asSession v =
     (case v of
        JObject kvs \<Rightarrow>
          (case (string_field kvs ''id'', string_field kvs ''title'', messages_field kvs,
                 int_field kvs ''timestamp'') of
             (Some i, Some t, Some ms, Some ts) \<Rightarrow>
               Some \<lparr> session_id = i, session_title = t, session_messages = ms,
                      session_timestamp = ts \<rparr>
           | _ \<Rightarrow> None)
      | _ \<Rightarrow> None)"

definition asSessions :: "json \<Rightarrow> ChatSession list option" where
  "asSessions v = (case v of JArray vs \<Rightarrow> those (map asSession vs) | _ \<Rightarrow> None)"

definition parseSessions :: "ustring \<Rightarrow> ChatSession list option" where
  "parseSessions s = Option.bind (parseJSON s) asSessions"

text \<open>What may follow a number: nothing, or a code unit that cannot continue it.\<close>

definition number_end :: "ustring \<Rightarrow> bool" where
  "number_end rest \<longleftrightarrow>
     (case rest of [] \<Rightarrow> True | c # _ \<Rightarrow> \<not> is_digit c \<and> c \<noteq> 46 \<and> c \<noteq> 101 \<and> c \<noteq> 69)"

text \<open>
  The data that the archive consists of: strings, integers, arrays and objects. The
  serialisation of the archive list is the serialisation of such a datum, and the
  parser reads it back to the corresponding JSON value.
\<close>

datatype jdata =
    DString ustring
  | DInt int
  | DArray "jdata list"
  | DObject "(ustring \<times> jdata) list"

fun print_data :: "jdata \<Rightarrow> ustring" where
  "print_data (DString s) = quoteJSONString s"
| "print_data (DInt i) = int_toString i"
| "print_data (DArray es) = json_array (map print_data es)"
| "print_data (DObject kvs) =
     json_object (map (\<lambda>kv. quoteJSONString (fst kv) @ 58 # print_data (snd kv)) kvs)"

fun embed :: "jdata \<Rightarrow> json" where
  "embed (DString s) = JString s"
| "embed (DInt i) = JNumber (Finite (of_int i))"
| "embed (DArray es) = JArray (map embed es)"
| "embed (DObject kvs) = JObject (map (\<lambda>kv. (fst kv, embed (snd kv))) kvs)"

text \<open>The keys of every object are distinct.\<close>

fun distinct_keys :: "jdata \<Rightarrow> bool" where
  "distinct_keys (DString s) = True"
| "distinct_keys (DInt i) = True"
| "distinct_keys (DArray es) = list_all distinct_keys es"
| "distinct_keys (DObject kvs) =
     (distinct (map fst kvs) \<and> list_all (\<lambda>kv. distinct_keys (snd kv)) kvs)"

text \<open>The recursion depth that parsing the serialisation of a datum takes.\<close>

fun need_list :: "nat list \<Rightarrow> nat" where
  "need_list [] = 0"
| "need_list (n # ns) = Suc (max n (need_list ns))"

fun need :: "jdata \<Rightarrow> nat" where
  "need (DString s) = 1"
| "need (DInt i) = 1"
| "need (DArray es) = Suc (need_list (map need es))"
| "need (DObject kvs) = Suc (need_list (map (\<lambda>kv. need (snd kv)) kvs))"

text \<open>The first code unit of a serialised datum.\<close>

definition value_start :: "nat \<Rightarrow> bool" where
  "value_start c \<longleftrightarrow> c = 34 \<or> c = 45 \<or> is_digit c \<or> c = 91 \<or> c = 123"

text \<open>The archive list as a datum: a property whose value is \<open>undefined\<close> is left out.\<close>

definition optional_datum :: "string \<Rightarrow> ('a \<Rightarrow> jdata) \<Rightarrow> 'a option \<Rightarrow> (ustring \<times> jdata) list" where
  "optional_datum key enc v = (case v of None \<Rightarrow> [] | Some x \<Rightarrow> [(lit key, enc x)])"

definition sourceData :: "ChatSource \<Rightarrow> jdata" where
  "sourceData s =
     DObject (optional_datum ''title'' DString (src_title s) @
              optional_datum ''uri'' DString (src_uri s))"

definition messageData :: "ChatMessage \<Rightarrow> jdata" where
  "messageData m =
     DObject
       ([(lit ''id'', DString (msg_id m)),
         (lit ''role'', DString (case msg_role m of User \<Rightarrow> lit ''user'' | Model \<Rightarrow> lit ''model'')),
         (lit ''text'', DString (msg_text m))] @
        optional_datum ''imageUrl'' DString (msg_imageUrl m) @
        [(lit ''timestamp'', DInt (msg_timestamp m))] @
        optional_datum ''sources'' (\<lambda>ss. DArray (map sourceData ss)) (msg_sources m))"

definition sessionData :: "ChatSession \<Rightarrow> jdata" where
  "sessionData s =
     DObject
       [(lit ''id'', DString (session_id s)),
        (lit ''title'', DString (session_title s)),
        (lit ''messages'', DArray (map messageData (session_messages s))),
        (lit ''timestamp'', DInt (session_timestamp s))]"

definition sessionsData :: "ChatSession list \<Rightarrow> jdata" where
  "sessionsData xs = DArray (map sessionData xs)"

section \<open>Concrete instances\<close>

text \<open>
  Behaviours of the service, a chat and an archive, at which the properties below are
  instantiated.
\<close>

text \<open>A service that answers every request with an empty text and no candidates.\<close>

definition silentService :: service where
  "silentService req = Inr \<lparr> resp_text = Some [], candidates = None \<rparr>"

text \<open>A service whose primary tier is rate-limited and whose backup tier answers.\<close>

definition overloadedService :: service where
  "overloadedService req =
     (if model req = CORE_PROTOCOL
      then Inl \<lparr> message = Some (lit ''got status: 429 Too Many Requests''), status = Some 429 \<rparr>
      else Inr \<lparr> resp_text = Some (lit ''ok''), candidates = None \<rparr>)"

text \<open>A service of which every tier is unavailable.\<close>

definition downService :: service where
  "downService req = Inl \<lparr> message = Some (lit ''503 Service Unavailable''), status = None \<rparr>"

text \<open>A service that cannot be reached: a network error without status.\<close>

definition offlineService :: service where
  "offlineService req = Inl \<lparr> message = Some (lit ''Failed to fetch''), status = None \<rparr>"

text \<open>A primary tier that signals the rate limit through the status field only.\<close>

definition statusOnlyService :: service where
  "statusOnlyService req =
     (if model req = CORE_PROTOCOL
      then Inl \<lparr> message = Some (lit ''Too Many Requests''), status = Some 429 \<rparr>
      else Inr \<lparr> resp_text = Some (lit ''ok''), candidates = None \<rparr>)"

text \<open>A rate limit signalled in words, with a status other than 429.\<close>

definition wordedLimitService :: service where
  "wordedLimitService req = Inl \<lparr> message = Some (lit ''Rate limit exceeded''), status = Some 503 \<rparr>"




text \<open>A service that answers every request with the given text.\<close>

definition textService :: "ustring \<Rightarrow> service" where
  "textService t req = Inr \<lparr> resp_text = Some t, candidates = None \<rparr>"

text \<open>A chat of two messages and an archive of one session, as concrete instances.\<close>

definition exampleMessages :: "ChatMessage list" where
  "exampleMessages =
     [\<lparr> msg_id = lit ''1700000000000'', msg_role = User,
         msg_text = lit ''\"Cooper\"?'' @ [10, 0xD83D, 0xDC41, 0xD800, 92, 233],
         msg_imageUrl = None, msg_timestamp = 1700000000000, msg_sources = None \<rparr>,
      \<lparr> msg_id = lit ''1700000000901'', msg_role = Model, msg_text = lit ''A hijacker.'',
         msg_imageUrl = None, msg_timestamp = 1700000000900,
         msg_sources = Some [\<lparr> src_title = None, src_uri = Some (lit ''https://fbi.gov/'') \<rparr>] \<rparr>]"

definition exampleArchive :: "ChatSession list" where
  "exampleArchive =
     [\<lparr> session_id = lit ''1690000000000'', session_title = lit ''Zodiac'',
         session_messages =
           [\<lparr> msg_id = lit ''1689999999000'', msg_role = User, msg_text = lit ''Zodiac'',
               msg_imageUrl = Some (lit ''data:,A''),
               msg_timestamp = 1689999999000, msg_sources = None \<rparr>],
         session_timestamp = 1690000000001 \<rparr>]"

section \<open>Properties\<close>

subsection \<open>Strings\<close>

text \<open>\<open>str_includes\<close> is the substring relation.\<close>

lemma str_includes_iff: "str_includes s pat \<longleftrightarrow> (\<exists>a b. s = a @ pat @ b)"
proof (induction s)
  case Nil
  then show ?case by auto
next
  case (Cons c cs)
  show ?case
  proof
    assume "str_includes (c # cs) pat"
    then consider "prefix pat (c # cs)" | "str_includes cs pat" by auto
    then show "\<exists>a b. c # cs = a @ pat @ b"
    proof cases
      case 1
      then obtain b where "c # cs = pat @ b" by (auto simp: prefix_def)
      then have "c # cs = [] @ pat @ b" by simp
      then show ?thesis by blast
    next
      case 2
      with Cons.IH obtain a b where "cs = a @ pat @ b" by blast
      then have "c # cs = (c # a) @ pat @ b" by simp
      then show ?thesis by blast
    qed
  next
    assume "\<exists>a b. c # cs = a @ pat @ b"
    then obtain a b where ab: "c # cs = a @ pat @ b" by blast
    show "str_includes (c # cs) pat"
    proof (cases a)
      case Nil
      with ab have "prefix pat (c # cs)" by (simp add: prefix_def)
      then show ?thesis by simp
    next
      case (Cons x a')
      with ab have "cs = a' @ pat @ b" by simp
      with Cons.IH have "str_includes cs pat" by blast
      then show ?thesis by simp
    qed
  qed
qed

subsection \<open>The request dispatcher\<close>

lemma CORE_neq_BACKUP: "CORE_PROTOCOL \<noteq> BACKUP_PROTOCOL"
  by (simp add: CORE_PROTOCOL_def BACKUP_PROTOCOL_def lit_def)

lemma str_or_nonempty: "b \<noteq> [] \<Longrightarrow> str_or a b \<noteq> []"
  by (simp add: str_or_def split: option.splits)

lemma NO_DATA_nonempty: "NO_DATA \<noteq> []"
  by (simp add: NO_DATA_def lit_def)

text \<open>The four paths through \<^verbatim>\<open>queryWebNetwork\<close>, by the outcomes of the two tiers.\<close>

lemma executeRequest_Inr:
  "svc (buildRequest today q vd vm node mdl) = Inr resp \<Longrightarrow>
   executeRequest svc today q vd vm node mdl sent =
     (Inr \<lparr> text = str_or (resp_text resp) NO_DATA, groundingChunks = webSources resp \<rparr>,
      sent @ [buildRequest today q vd vm node mdl])"
  by (simp add: executeRequest_def)

lemma executeRequest_Inl:
  "svc (buildRequest today q vd vm node mdl) = Inl e \<Longrightarrow>
   executeRequest svc today q vd vm node mdl sent =
     (Inl e, sent @ [buildRequest today q vd vm node mdl])"
  by (simp add: executeRequest_def)

lemma qwn_primary_ok:
  "svc (buildRequest today q vd vm (defaultNode node) CORE_PROTOCOL) = Inr resp \<Longrightarrow>
   queryWebNetwork svc today q vd vm node =
     (Inr \<lparr> text = str_or (resp_text resp) NO_DATA, groundingChunks = webSources resp \<rparr>,
      [buildRequest today q vd vm (defaultNode node) CORE_PROTOCOL])"
  by (simp add: queryWebNetwork_def Let_def executeRequest_Inr)

lemma qwn_no_traffic:
  "svc (buildRequest today q vd vm (defaultNode node) CORE_PROTOCOL) = Inl e \<Longrightarrow>
   \<not> isTrafficError e \<Longrightarrow>
   queryWebNetwork svc today q vd vm node =
     (Inr CONNECTION_ERROR, [buildRequest today q vd vm (defaultNode node) CORE_PROTOCOL])"
  by (simp add: queryWebNetwork_def Let_def executeRequest_Inl)

lemma qwn_backup_ok:
  "svc (buildRequest today q vd vm (defaultNode node) CORE_PROTOCOL) = Inl e \<Longrightarrow>
   isTrafficError e \<Longrightarrow>
   svc (buildRequest today q vd vm (defaultNode node) BACKUP_PROTOCOL) = Inr resp \<Longrightarrow>
   queryWebNetwork svc today q vd vm node =
     (Inr \<lparr> text = str_or (resp_text resp) NO_DATA @ BACKUP_MARKER,
            groundingChunks = webSources resp \<rparr>,
      [buildRequest today q vd vm (defaultNode node) CORE_PROTOCOL,
       buildRequest today q vd vm (defaultNode node) BACKUP_PROTOCOL])"
  by (simp add: queryWebNetwork_def Let_def executeRequest_Inl executeRequest_Inr)

lemma qwn_backup_fails:
  "svc (buildRequest today q vd vm (defaultNode node) CORE_PROTOCOL) = Inl e \<Longrightarrow>
   isTrafficError e \<Longrightarrow>
   svc (buildRequest today q vd vm (defaultNode node) BACKUP_PROTOCOL) = Inl e' \<Longrightarrow>
   queryWebNetwork svc today q vd vm node =
     (Inr SYSTEM_OVERLOAD,
      [buildRequest today q vd vm (defaultNode node) CORE_PROTOCOL,
       buildRequest today q vd vm (defaultNode node) BACKUP_PROTOCOL])"
  by (simp add: queryWebNetwork_def Let_def executeRequest_Inl)

lemma str_or_empty: "a = None \<or> a = Some [] \<Longrightarrow> str_or a b = b"
  by (auto simp: str_or_def)

lemma CONNECTION_ERROR_text_nonempty: "text CONNECTION_ERROR \<noteq> []"
  by (simp add: CONNECTION_ERROR_def lit_def)

lemma SYSTEM_OVERLOAD_text_nonempty: "text SYSTEM_OVERLOAD \<noteq> []"
  by (simp add: SYSTEM_OVERLOAD_def lit_def)

text \<open>
  Claim C1. Whatever the service answers and whatever the query, the inline binary, its
  MIME type and the mode are, \<^verbatim>\<open>queryWebNetwork\<close> resolves (its result is \<open>Inr\<close>, never
  \<open>Inl\<close>) and the text of the response is a non-empty string. When the tier that
  answers returns a missing or an empty text, the text is the placeholder
  \<^verbatim>\<open>NO_DATA_RECEIVED_FROM_VIOLEN\<close> (followed by the backup marker when the answer came
  from the backup tier). The service is taken to settle every call: it resolves or it
  rejects with an error object.
\<close>

theorem queryWebNetwork_resolves_nonempty:
  "\<exists>r. fst (queryWebNetwork svc today q vd vm node) = Inr r \<and> text r \<noteq> [] \<and>
     (\<forall>resp. svc (buildRequest today q vd vm (defaultNode node) CORE_PROTOCOL) = Inr resp \<and>
        (resp_text resp = None \<or> resp_text resp = Some []) \<longrightarrow> text r = NO_DATA) \<and>
     (\<forall>e resp. svc (buildRequest today q vd vm (defaultNode node) CORE_PROTOCOL) = Inl e \<and>
        isTrafficError e \<and>
        svc (buildRequest today q vd vm (defaultNode node) BACKUP_PROTOCOL) = Inr resp \<and>
        (resp_text resp = None \<or> resp_text resp = Some []) \<longrightarrow> text r = NO_DATA @ BACKUP_MARKER)"
proof (cases "svc (buildRequest today q vd vm (defaultNode node) CORE_PROTOCOL)")
  case (Inr resp)
  have "fst (queryWebNetwork svc today q vd vm node) =
          Inr \<lparr> text = str_or (resp_text resp) NO_DATA, groundingChunks = webSources resp \<rparr>"
    by (simp add: qwn_primary_ok [where svc = svc, OF Inr])
  moreover have "str_or (resp_text resp) NO_DATA \<noteq> []"
    by (rule str_or_nonempty [OF NO_DATA_nonempty])
  ultimately show ?thesis
    using Inr by (auto simp: str_or_empty)
next
  case (Inl e)
  show ?thesis
  proof (cases "isTrafficError e")
    case False
    have "fst (queryWebNetwork svc today q vd vm node) = Inr CONNECTION_ERROR"
      by (simp add: qwn_no_traffic [where svc = svc, OF Inl False])
    then show ?thesis
      using Inl False CONNECTION_ERROR_text_nonempty by auto
  next
    case True
    show ?thesis
    proof (cases "svc (buildRequest today q vd vm (defaultNode node) BACKUP_PROTOCOL)")
      case (Inr resp)
      have "fst (queryWebNetwork svc today q vd vm node) =
              Inr \<lparr> text = str_or (resp_text resp) NO_DATA @ BACKUP_MARKER,
                     groundingChunks = webSources resp \<rparr>"
        by (simp add: qwn_backup_ok [where svc = svc, OF Inl True Inr])
      moreover have "str_or (resp_text resp) NO_DATA @ BACKUP_MARKER \<noteq> []"
        using str_or_nonempty [OF NO_DATA_nonempty] by simp
      ultimately show ?thesis
        using Inl Inr by (auto simp: str_or_empty)
    next
      case Inl2: (Inl e')
      have "fst (queryWebNetwork svc today q vd vm node) = Inr SYSTEM_OVERLOAD"
        by (simp add: qwn_backup_fails [where svc = svc, OF Inl True Inl2])
      then show ?thesis
        using Inl Inl2 SYSTEM_OVERLOAD_text_nonempty by auto
    qed
  qed
qed

theorem queryWebNetwork_resolves_nonempty_witness:
  "\<exists>r. fst (queryWebNetwork silentService (lit ''Monday'') (lit ''hello'') None None None) = Inr r \<and>
       text r = lit ''NO_DATA_RECEIVED_FROM_VIOLEN''"
  using queryWebNetwork_resolves_nonempty
    [of silentService "lit ''Monday''" "lit ''hello''" None None None]
  by (auto simp: silentService_def NO_DATA_def)

lemma model_buildRequest: "model (buildRequest today q vd vm node mdl) = mdl"
  by (simp add: buildRequest_def)

lemma buildRequest_CORE_neq_BACKUP:
  "buildRequest today q vd vm node CORE_PROTOCOL \<noteq> buildRequest today q vd vm node BACKUP_PROTOCOL"
  using CORE_neq_BACKUP by (simp add: buildRequest_def)

lemma isTrafficError_iff:
  "isTrafficError e \<longleftrightarrow>
     (\<exists>m. message e = Some m \<and> ((\<exists>a b. m = a @ lit ''429'' @ b) \<or> (\<exists>a b. m = a @ lit ''503'' @ b)))
     \<or> status e = Some 429"
  by (cases "message e") (auto simp: isTrafficError_def message_includes_def str_includes_iff)

lemma offline_not_traffic:
  "\<not> isTrafficError \<lparr> message = Some (lit ''Failed to fetch''), status = None \<rparr>"
  by (simp add: isTrafficError_def message_includes_def lit_def)

lemma down_is_traffic:
  "isTrafficError \<lparr> message = Some (lit ''503 Service Unavailable''), status = None \<rparr>"
  by (simp add: isTrafficError_def message_includes_def lit_def)

lemma overloaded_is_traffic:
  "isTrafficError \<lparr> message = Some (lit ''got status: 429 Too Many Requests''), status = Some 429 \<rparr>"
  by (simp add: isTrafficError_def message_includes_def)

text \<open>
  Claim C2 as stated fails: the service that rejects the primary request with a 429 and
  answers the backup request with \<^verbatim>\<open>ok\<close> makes the primary attempt fail, yet the
  result is neither fixed response and its citation list is absent, not empty: it is the
  backup tier's answer with the marker appended, after both requests were sent.
\<close>

theorem primary_failure_rescued_counterexample:
  "overloadedService (buildRequest (lit ''Monday'') (lit ''hello'') None None Surfer CORE_PROTOCOL) =
     Inl \<lparr> message = Some (lit ''got status: 429 Too Many Requests''), status = Some 429 \<rparr> \<and>
   queryWebNetwork overloadedService (lit ''Monday'') (lit ''hello'') None None None =
     (Inr \<lparr> text = lit ''ok'' @ lit ''\<newline>\<newline>_'' @ [0x2014] @ lit '' [Rerouted via Backup Node]_'',
            groundingChunks = None \<rparr>,
      [buildRequest (lit ''Monday'') (lit ''hello'') None None Surfer CORE_PROTOCOL,
       buildRequest (lit ''Monday'') (lit ''hello'') None None Surfer BACKUP_PROTOCOL]) \<and>
   fst (queryWebNetwork overloadedService (lit ''Monday'') (lit ''hello'') None None None) \<noteq>
     Inr CONNECTION_ERROR \<and>
   fst (queryWebNetwork overloadedService (lit ''Monday'') (lit ''hello'') None None None) \<noteq>
     Inr SYSTEM_OVERLOAD"
proof -
  have n: "defaultNode None = Surfer"
    by (simp add: defaultNode_def)
  have p: "overloadedService (buildRequest (lit ''Monday'') (lit ''hello'') None None (defaultNode None) CORE_PROTOCOL)
          = Inl \<lparr> message = Some (lit ''got status: 429 Too Many Requests''), status = Some 429 \<rparr>"
    by (simp add: overloadedService_def model_buildRequest)
  have b: "overloadedService (buildRequest (lit ''Monday'') (lit ''hello'') None None (defaultNode None) BACKUP_PROTOCOL)
          = Inr \<lparr> resp_text = Some (lit ''ok''), candidates = None \<rparr>"
    using CORE_neq_BACKUP by (simp add: overloadedService_def model_buildRequest)
  have r: "queryWebNetwork overloadedService (lit ''Monday'') (lit ''hello'') None None None =
     (Inr \<lparr> text = lit ''ok'' @ lit ''\<newline>\<newline>_'' @ [0x2014] @ lit '' [Rerouted via Backup Node]_'',
            groundingChunks = None \<rparr>,
      [buildRequest (lit ''Monday'') (lit ''hello'') None None Surfer CORE_PROTOCOL,
       buildRequest (lit ''Monday'') (lit ''hello'') None None Surfer BACKUP_PROTOCOL])"
    using qwn_backup_ok [where svc = overloadedService, OF p overloaded_is_traffic b]
    by (simp add: n str_or_def webSources_def BACKUP_MARKER_def lit_def)
  have c: "fst (queryWebNetwork overloadedService (lit ''Monday'') (lit ''hello'') None None None) \<noteq>
     Inr CONNECTION_ERROR"
    unfolding r by (simp add: CONNECTION_ERROR_def)
  have o: "fst (queryWebNetwork overloadedService (lit ''Monday'') (lit ''hello'') None None None) \<noteq>
     Inr SYSTEM_OVERLOAD"
    unfolding r by (simp add: SYSTEM_OVERLOAD_def)
  from p r c o show ?thesis
    unfolding n by blast
qed

text \<open>
  Claim C2, as amended. Whenever the primary attempt fails and the backup tier does not
  rescue it (that is, unless the failure is classified as transient overload and the
  backup attempt succeeds), the result is one of the two fixed responses, each with an
  empty citation list. If the failure is not classified as transient overload, the result
  is the fixed connection-error response, only the primary request was sent and no
  request names the backup tier. If the failure is classified as transient overload, the
  backup request is sent, once, after the primary one, whatever its outcome; and if that
  attempt fails too, the result is the fixed system-overload response.
\<close>

theorem primary_failure_yields_sentinel:
  assumes "svc (buildRequest today q vd vm (defaultNode node) CORE_PROTOCOL) = Inl e"
  shows "(\<not> (isTrafficError e \<and>
               (\<exists>resp. svc (buildRequest today q vd vm (defaultNode node) BACKUP_PROTOCOL) = Inr resp)) \<longrightarrow>
            (\<exists>r. fst (queryWebNetwork svc today q vd vm node) = Inr r \<and>
                 (r = CONNECTION_ERROR \<or> r = SYSTEM_OVERLOAD) \<and> groundingChunks r = Some [])) \<and>
         (\<not> isTrafficError e \<longrightarrow>
            queryWebNetwork svc today q vd vm node =
              (Inr CONNECTION_ERROR, [buildRequest today q vd vm (defaultNode node) CORE_PROTOCOL]) \<and>
            BACKUP_PROTOCOL \<notin> model ` set (snd (queryWebNetwork svc today q vd vm node))) \<and>
         (isTrafficError e \<longrightarrow>
            snd (queryWebNetwork svc today q vd vm node) =
              [buildRequest today q vd vm (defaultNode node) CORE_PROTOCOL,
               buildRequest today q vd vm (defaultNode node) BACKUP_PROTOCOL]) \<and>
         (isTrafficError e \<and>
            (\<exists>e'. svc (buildRequest today q vd vm (defaultNode node) BACKUP_PROTOCOL) = Inl e') \<longrightarrow>
            queryWebNetwork svc today q vd vm node =
              (Inr SYSTEM_OVERLOAD,
               [buildRequest today q vd vm (defaultNode node) CORE_PROTOCOL,
                buildRequest today q vd vm (defaultNode node) BACKUP_PROTOCOL])) \<and>
         CONNECTION_ERROR =
           \<lparr> text = lit ''## CONNECTION ERROR\<newline>\<newline>Unable to reach the VIOLEN Gateway.'',
             groundingChunks = Some [] \<rparr> \<and>
         SYSTEM_OVERLOAD =
           \<lparr> text = lit ''## SYSTEM OVERLOAD\<newline>\<newline>High traffic on all VIOLEN nodes. Please wait 30 seconds.'',
             groundingChunks = Some [] \<rparr>"
proof (intro conjI impI)
  assume nr: "\<not> (isTrafficError e \<and>
    (\<exists>resp. svc (buildRequest today q vd vm (defaultNode node) BACKUP_PROTOCOL) = Inr resp))"
  show "\<exists>r. fst (queryWebNetwork svc today q vd vm node) = Inr r \<and>
      (r = CONNECTION_ERROR \<or> r = SYSTEM_OVERLOAD) \<and> groundingChunks r = Some []"
  proof (cases "isTrafficError e")
    case False
    have "fst (queryWebNetwork svc today q vd vm node) = Inr CONNECTION_ERROR"
      by (simp add: qwn_no_traffic [where svc = svc, OF assms False])
    moreover have "groundingChunks CONNECTION_ERROR = Some []"
      by (simp add: CONNECTION_ERROR_def)
    ultimately show ?thesis by blast
  next
    case True
    with nr have "\<nexists>resp. svc (buildRequest today q vd vm (defaultNode node) BACKUP_PROTOCOL) = Inr resp"
      by blast
    then obtain e' where b: "svc (buildRequest today q vd vm (defaultNode node) BACKUP_PROTOCOL) = Inl e'"
      by (cases "svc (buildRequest today q vd vm (defaultNode node) BACKUP_PROTOCOL)") auto
    have "fst (queryWebNetwork svc today q vd vm node) = Inr SYSTEM_OVERLOAD"
      by (simp add: qwn_backup_fails [where svc = svc, OF assms True b])
    moreover have "groundingChunks SYSTEM_OVERLOAD = Some []"
      by (simp add: SYSTEM_OVERLOAD_def)
    ultimately show ?thesis by blast
  qed
next
  assume nt: "\<not> isTrafficError e"
  show res: "queryWebNetwork svc today q vd vm node =
      (Inr CONNECTION_ERROR, [buildRequest today q vd vm (defaultNode node) CORE_PROTOCOL])"
    by (rule qwn_no_traffic [where svc = svc, OF assms nt])
  show "BACKUP_PROTOCOL \<notin> model ` set (snd (queryWebNetwork svc today q vd vm node))"
    using CORE_neq_BACKUP by (simp add: res model_buildRequest)
next
  assume t: "isTrafficError e"
  show "snd (queryWebNetwork svc today q vd vm node) =
      [buildRequest today q vd vm (defaultNode node) CORE_PROTOCOL,
       buildRequest today q vd vm (defaultNode node) BACKUP_PROTOCOL]"
  proof (cases "svc (buildRequest today q vd vm (defaultNode node) BACKUP_PROTOCOL)")
    case (Inl e')
    show ?thesis
      by (simp add: qwn_backup_fails [where svc = svc, OF assms t Inl])
  next
    case (Inr resp)
    show ?thesis
      by (simp add: qwn_backup_ok [where svc = svc, OF assms t Inr])
  qed
next
  assume "isTrafficError e \<and>
    (\<exists>e'. svc (buildRequest today q vd vm (defaultNode node) BACKUP_PROTOCOL) = Inl e')"
  then obtain e' where t: "isTrafficError e"
    and b: "svc (buildRequest today q vd vm (defaultNode node) BACKUP_PROTOCOL) = Inl e'"
    by blast
  show "queryWebNetwork svc today q vd vm node =
      (Inr SYSTEM_OVERLOAD,
       [buildRequest today q vd vm (defaultNode node) CORE_PROTOCOL,
        buildRequest today q vd vm (defaultNode node) BACKUP_PROTOCOL])"
    by (rule qwn_backup_fails [where svc = svc, OF assms t b])
next
  show "CONNECTION_ERROR =
      \<lparr> text = lit ''## CONNECTION ERROR\<newline>\<newline>Unable to reach the VIOLEN Gateway.'',
        groundingChunks = Some [] \<rparr>"
    by (simp add: CONNECTION_ERROR_def)
next
  show "SYSTEM_OVERLOAD =
      \<lparr> text = lit ''## SYSTEM OVERLOAD\<newline>\<newline>High traffic on all VIOLEN nodes. Please wait 30 seconds.'',
        groundingChunks = Some [] \<rparr>"
    by (simp add: SYSTEM_OVERLOAD_def)
qed

theorem primary_failure_yields_sentinel_witness:
  "queryWebNetwork offlineService (lit ''Monday'') (lit ''hello'') None None None =
     (Inr CONNECTION_ERROR, [buildRequest (lit ''Monday'') (lit ''hello'') None None Surfer CORE_PROTOCOL]) \<and>
   BACKUP_PROTOCOL \<notin>
     model ` set (snd (queryWebNetwork offlineService (lit ''Monday'') (lit ''hello'') None None None)) \<and>
   queryWebNetwork downService (lit ''Monday'') (lit ''hello'') None None None =
     (Inr SYSTEM_OVERLOAD,
      [buildRequest (lit ''Monday'') (lit ''hello'') None None Surfer CORE_PROTOCOL,
       buildRequest (lit ''Monday'') (lit ''hello'') None None Surfer BACKUP_PROTOCOL]) \<and>
   snd (queryWebNetwork overloadedService (lit ''Monday'') (lit ''hello'') None None None) =
     [buildRequest (lit ''Monday'') (lit ''hello'') None None Surfer CORE_PROTOCOL,
      buildRequest (lit ''Monday'') (lit ''hello'') None None Surfer BACKUP_PROTOCOL] \<and>
   (\<exists>r. fst (queryWebNetwork downService (lit ''Monday'') (lit ''hello'') None None None) = Inr r \<and>
        (r = CONNECTION_ERROR \<or> r = SYSTEM_OVERLOAD) \<and> groundingChunks r = Some [])"
proof (intro conjI)
  have "offlineService (buildRequest (lit ''Monday'') (lit ''hello'') None None (defaultNode None) CORE_PROTOCOL)
          = Inl \<lparr> message = Some (lit ''Failed to fetch''), status = None \<rparr>"
    by (simp add: offlineService_def)
  note t = primary_failure_yields_sentinel [where svc = offlineService, OF this]
  from t offline_not_traffic
  show "queryWebNetwork offlineService (lit ''Monday'') (lit ''hello'') None None None =
     (Inr CONNECTION_ERROR, [buildRequest (lit ''Monday'') (lit ''hello'') None None Surfer CORE_PROTOCOL])"
    by (simp add: defaultNode_def)
  from t offline_not_traffic
  show "BACKUP_PROTOCOL \<notin>
     model ` set (snd (queryWebNetwork offlineService (lit ''Monday'') (lit ''hello'') None None None))"
    by blast
next
  have p: "downService (buildRequest (lit ''Monday'') (lit ''hello'') None None (defaultNode None) CORE_PROTOCOL)
          = Inl \<lparr> message = Some (lit ''503 Service Unavailable''), status = None \<rparr>"
    by (simp add: downService_def)
  have b: "\<exists>e'. downService (buildRequest (lit ''Monday'') (lit ''hello'') None None (defaultNode None) BACKUP_PROTOCOL)
          = Inl e'"
    by (simp add: downService_def)
  have nb: "\<not> (\<exists>resp. downService (buildRequest (lit ''Monday'') (lit ''hello'') None None (defaultNode None) BACKUP_PROTOCOL)
          = Inr resp)"
    by (simp add: downService_def)
  note t = primary_failure_yields_sentinel [where svc = downService, OF p]
  from t down_is_traffic b
  show "queryWebNetwork downService (lit ''Monday'') (lit ''hello'') None None None =
     (Inr SYSTEM_OVERLOAD,
      [buildRequest (lit ''Monday'') (lit ''hello'') None None Surfer CORE_PROTOCOL,
       buildRequest (lit ''Monday'') (lit ''hello'') None None Surfer BACKUP_PROTOCOL])"
    by (simp add: defaultNode_def)
  from t nb
  show "\<exists>r. fst (queryWebNetwork downService (lit ''Monday'') (lit ''hello'') None None None) = Inr r \<and>
        (r = CONNECTION_ERROR \<or> r = SYSTEM_OVERLOAD) \<and> groundingChunks r = Some []"
    by blast
next
  have "overloadedService (buildRequest (lit ''Monday'') (lit ''hello'') None None (defaultNode None) CORE_PROTOCOL)
          = Inl \<lparr> message = Some (lit ''got status: 429 Too Many Requests''), status = Some 429 \<rparr>"
    by (simp add: overloadedService_def model_buildRequest)
  from primary_failure_yields_sentinel [where svc = overloadedService, OF this] overloaded_is_traffic
  show "snd (queryWebNetwork overloadedService (lit ''Monday'') (lit ''hello'') None None None) =
     [buildRequest (lit ''Monday'') (lit ''hello'') None None Surfer CORE_PROTOCOL,
      buildRequest (lit ''Monday'') (lit ''hello'') None None Surfer BACKUP_PROTOCOL]"
    by (simp add: defaultNode_def)
qed

text \<open>
  Claim C3. When the primary attempt fails with a transient-overload signal and the backup
  attempt succeeds, the result is the response built from the backup tier's answer with
  the marker \<^verbatim>\<open>\n\n_\<close>, U+2014, \<^verbatim>\<open> [Rerouted via Backup Node]_\<close> appended to its text: the
  returned text ends with the marker, the citations are those of the backup answer.
\<close>

theorem backup_success_appends_marker:
  assumes "svc (buildRequest today q vd vm (defaultNode node) CORE_PROTOCOL) = Inl e"
    and "isTrafficError e"
    and "svc (buildRequest today q vd vm (defaultNode node) BACKUP_PROTOCOL) = Inr resp"
  shows "\<exists>fb r. fst (executeRequest svc today q vd vm (defaultNode node) BACKUP_PROTOCOL sent) = Inr fb \<and>
           fst (queryWebNetwork svc today q vd vm node) = Inr r \<and>
           r = fb\<lparr> text := text fb @ BACKUP_MARKER \<rparr> \<and>
           text r = str_or (resp_text resp) NO_DATA @ BACKUP_MARKER \<and>
           groundingChunks r = webSources resp \<and>
           suffix BACKUP_MARKER (text r) \<and>
           BACKUP_MARKER = lit ''\<newline>\<newline>_'' @ [0x2014] @ lit '' [Rerouted via Backup Node]_''"
proof -
  let ?fb = "\<lparr> text = str_or (resp_text resp) NO_DATA, groundingChunks = webSources resp \<rparr>"
  have 1: "fst (executeRequest svc today q vd vm (defaultNode node) BACKUP_PROTOCOL sent) = Inr ?fb"
    by (simp add: executeRequest_Inr [where svc = svc, OF assms(3)])
  have 2: "fst (queryWebNetwork svc today q vd vm node) = Inr (?fb\<lparr> text := text ?fb @ BACKUP_MARKER \<rparr>)"
    by (simp add: qwn_backup_ok [where svc = svc, OF assms])
  have 3: "suffix BACKUP_MARKER (text (?fb\<lparr> text := text ?fb @ BACKUP_MARKER \<rparr>))"
    by (simp add: suffix_def)
  have 4: "BACKUP_MARKER = lit ''\<newline>\<newline>_'' @ [0x2014] @ lit '' [Rerouted via Backup Node]_''"
    by (simp add: BACKUP_MARKER_def)
  from 1 2 3 4 show ?thesis by simp
qed

theorem backup_success_appends_marker_witness:
  "fst (queryWebNetwork overloadedService (lit ''Monday'') (lit ''hello'') None None None) =
     Inr \<lparr> text = lit ''ok'' @ lit ''\<newline>\<newline>_'' @ [0x2014] @ lit '' [Rerouted via Backup Node]_'',
            groundingChunks = None \<rparr>"
proof -
  have p: "overloadedService (buildRequest (lit ''Monday'') (lit ''hello'') None None (defaultNode None) CORE_PROTOCOL)
          = Inl \<lparr> message = Some (lit ''got status: 429 Too Many Requests''), status = Some 429 \<rparr>"
    by (simp add: overloadedService_def model_buildRequest)
  have b: "overloadedService (buildRequest (lit ''Monday'') (lit ''hello'') None None (defaultNode None) BACKUP_PROTOCOL)
          = Inr \<lparr> resp_text = Some (lit ''ok''), candidates = None \<rparr>"
    using CORE_neq_BACKUP by (simp add: overloadedService_def model_buildRequest)
  from backup_success_appends_marker [where svc = overloadedService and sent = "[]", OF p overloaded_is_traffic b]
  show ?thesis
    by (auto simp: str_or_def webSources_def lit_def)
qed

text \<open>
  Claim C10. The classification is a substring test: after a failed primary attempt the
  backup request is sent if and only if the error has a message that contains \<^verbatim>\<open>429\<close>
  or contains \<^verbatim>\<open>503\<close>, or has the status 429. Every other failure gives the
  connection-error response after the primary request alone.
\<close>

theorem backup_attempted_iff_traffic_substring:
  assumes "svc (buildRequest today q vd vm (defaultNode node) CORE_PROTOCOL) = Inl e"
  shows "(buildRequest today q vd vm (defaultNode node) BACKUP_PROTOCOL
            \<in> set (snd (queryWebNetwork svc today q vd vm node))
          \<longleftrightarrow>
          (\<exists>m. message e = Some m \<and>
               ((\<exists>a b. m = a @ lit ''429'' @ b) \<or> (\<exists>a b. m = a @ lit ''503'' @ b)))
          \<or> status e = Some 429) \<and>
         (\<not> ((\<exists>m. message e = Some m \<and>
               ((\<exists>a b. m = a @ lit ''429'' @ b) \<or> (\<exists>a b. m = a @ lit ''503'' @ b)))
             \<or> status e = Some 429) \<longrightarrow>
          queryWebNetwork svc today q vd vm node =
            (Inr CONNECTION_ERROR, [buildRequest today q vd vm (defaultNode node) CORE_PROTOCOL]))"
proof (cases "isTrafficError e")
  case False
  have "queryWebNetwork svc today q vd vm node =
      (Inr CONNECTION_ERROR, [buildRequest today q vd vm (defaultNode node) CORE_PROTOCOL])"
    by (rule qwn_no_traffic [where svc = svc, OF assms False])
  moreover have "buildRequest today q vd vm (defaultNode node) BACKUP_PROTOCOL
      \<noteq> buildRequest today q vd vm (defaultNode node) CORE_PROTOCOL"
    using buildRequest_CORE_neq_BACKUP by metis
  ultimately show ?thesis
    using False unfolding isTrafficError_iff by simp
next
  case True
  have "snd (queryWebNetwork svc today q vd vm node) =
      [buildRequest today q vd vm (defaultNode node) CORE_PROTOCOL,
       buildRequest today q vd vm (defaultNode node) BACKUP_PROTOCOL]"
  proof (cases "svc (buildRequest today q vd vm (defaultNode node) BACKUP_PROTOCOL)")
    case (Inl e')
    show ?thesis by (simp add: qwn_backup_fails [where svc = svc, OF assms True Inl])
  next
    case (Inr resp)
    show ?thesis by (simp add: qwn_backup_ok [where svc = svc, OF assms True Inr])
  qed
  then show ?thesis
    using True unfolding isTrafficError_iff by simp
qed

theorem backup_attempted_iff_traffic_substring_witness:
  "buildRequest (lit ''Monday'') (lit ''hello'') None None Surfer BACKUP_PROTOCOL
     \<in> set (snd (queryWebNetwork statusOnlyService (lit ''Monday'') (lit ''hello'') None None None)) \<and>
   queryWebNetwork wordedLimitService (lit ''Monday'') (lit ''hello'') None None None =
     (Inr CONNECTION_ERROR, [buildRequest (lit ''Monday'') (lit ''hello'') None None Surfer CORE_PROTOCOL])"
proof
  have "statusOnlyService (buildRequest (lit ''Monday'') (lit ''hello'') None None (defaultNode None) CORE_PROTOCOL)
          = Inl \<lparr> message = Some (lit ''Too Many Requests''), status = Some 429 \<rparr>"
    by (simp add: statusOnlyService_def model_buildRequest)
  from backup_attempted_iff_traffic_substring [where svc = statusOnlyService, OF this]
  show "buildRequest (lit ''Monday'') (lit ''hello'') None None Surfer BACKUP_PROTOCOL
     \<in> set (snd (queryWebNetwork statusOnlyService (lit ''Monday'') (lit ''hello'') None None None))"
    by (simp add: defaultNode_def)
next
  have nt: "\<not> isTrafficError \<lparr> message = Some (lit ''Rate limit exceeded''), status = Some 503 \<rparr>"
    by (simp add: isTrafficError_def message_includes_def lit_def)
  have "wordedLimitService (buildRequest (lit ''Monday'') (lit ''hello'') None None (defaultNode None) CORE_PROTOCOL)
          = Inl \<lparr> message = Some (lit ''Rate limit exceeded''), status = Some 503 \<rparr>"
    by (simp add: wordedLimitService_def)
  from backup_attempted_iff_traffic_substring [where svc = wordedLimitService, OF this] nt
  show "queryWebNetwork wordedLimitService (lit ''Monday'') (lit ''hello'') None None None =
     (Inr CONNECTION_ERROR, [buildRequest (lit ''Monday'') (lit ''hello'') None None Surfer CORE_PROTOCOL])"
    unfolding isTrafficError_iff by (simp add: defaultNode_def)
qed

subsection \<open>Transcription\<close>



subsection \<open>Footage search\<close>

lemma matchJsonArray_SomeD:
  assumes "matchJsonArray str = Some m"
  shows "\<exists>pre body post. str = pre @ m @ post \<and> m = 91 # body @ [93] \<and>
           91 \<notin> set pre \<and> 93 \<notin> set post"
proof -
  let ?P = "\<lambda>c::nat. c \<noteq> 91" and ?Q = "\<lambda>c::nat. c \<noteq> 93"
  from assms obtain ob rest where dw: "dropWhile ?P str = ob # rest"
    and in93: "93 \<in> set rest"
    and m: "m = ob # rev (dropWhile ?Q (rev rest))"
    by (auto simp: matchJsonArray_def split: list.splits if_splits)
  from dw have ob: "ob = 91"
    using hd_dropWhile [of "?P" str] by auto
  have str_eq: "str = takeWhile ?P str @ ob # rest"
    using takeWhile_dropWhile_id [of "?P" str] dw by simp
  have pre: "91 \<notin> set (takeWhile ?P str)"
    using set_takeWhileD by fastforce
  from in93 have "dropWhile ?Q (rev rest) \<noteq> []"
    by (simp add: dropWhile_eq_Nil_conv) 
  then obtain y r' where dq: "dropWhile ?Q (rev rest) = y # r'"
    by (cases "dropWhile ?Q (rev rest)") auto
  then have y: "y = 93"
    using hd_dropWhile [of "?Q" "rev rest"] by auto
  have "rev rest = takeWhile ?Q (rev rest) @ y # r'"
    using takeWhile_dropWhile_id [of "?Q" "rev rest"] dq by simp
  then have "rev (rev rest) = rev (takeWhile ?Q (rev rest) @ y # r')" by simp
  then have rest: "rest = rev r' @ [y] @ rev (takeWhile ?Q (rev rest))" by simp
  have post: "93 \<notin> set (rev (takeWhile ?Q (rev rest)))"
    using set_takeWhileD by fastforce
  have m': "m = 91 # rev r' @ [93]"
    using m dq ob y by simp
  have "str = takeWhile ?P str @ m @ rev (takeWhile ?Q (rev rest))"
    using str_eq rest m' ob y by simp
  with m' pre post show ?thesis by blast
qed

lemma matchJsonArray_SomeI:
  assumes "str = a @ 91 # b @ 93 # c"
  shows "\<exists>m. matchJsonArray str = Some m"
proof -
  let ?P = "\<lambda>c::nat. c \<noteq> 91"
  have "\<exists>rest. dropWhile ?P str = 91 # rest \<and> 93 \<in> set rest"
  proof (cases "\<forall>x\<in>set a. ?P x")
    case True
    then have "dropWhile ?P str = 91 # b @ 93 # c"
      using assms by (simp add: dropWhile_append)
    then show ?thesis by simp
  next
    case False
    then have ne: "dropWhile ?P a \<noteq> []" by (simp add: dropWhile_eq_Nil_conv)
    then obtain x a' where da: "dropWhile ?P a = x # a'" by (cases "dropWhile ?P a") auto
    then have "x = 91" using hd_dropWhile [of "?P" a] by auto
    moreover have "dropWhile ?P str = dropWhile ?P a @ 91 # b @ 93 # c"
      using assms False by (simp add: dropWhile_append)
    ultimately show ?thesis using da by simp
  qed
  then show ?thesis by (auto simp: matchJsonArray_def)
qed

lemma matchJsonArray_None_iff:
  "matchJsonArray str = None \<longleftrightarrow> \<not> (\<exists>a b c. str = a @ 91 # b @ 93 # c)"
proof
  assume "matchJsonArray str = None"
  then show "\<not> (\<exists>a b c. str = a @ 91 # b @ 93 # c)"
    using matchJsonArray_SomeI by fastforce
next
  assume n: "\<not> (\<exists>a b c. str = a @ 91 # b @ 93 # c)"
  show "matchJsonArray str = None"
  proof (rule ccontr)
    assume "matchJsonArray str \<noteq> None"
    then obtain m where "matchJsonArray str = Some m" by auto
    from matchJsonArray_SomeD [OF this] obtain pre body post
      where "str = pre @ m @ post" "m = 91 # body @ [93]" by blast
    then have "str = pre @ 91 # body @ 93 # post" by simp
    with n show False by blast
  qed
qed

lemma js_or_defined: "js_or a (Some b) \<noteq> None"
  by (cases a) (auto simp: js_or_def)

lemma toStockVideo_null: "toStockVideo query JNull = Inl TypeError"
  by (simp add: toStockVideo_def)

lemma getProp_nonnull: "item \<noteq> JNull \<Longrightarrow> \<exists>p. getProp item key = Inr p"
  by (cases item) auto

lemma toStockVideo_nonnull:
  assumes "item \<noteq> JNull"
  shows "\<exists>t u s. getProp item (lit ''title'') = Inr t \<and> getProp item (lit ''url'') = Inr u \<and>
           getProp item (lit ''source'') = Inr s \<and>
           toStockVideo query item =
             Inr \<lparr> sv_title = js_or t (Some (JString query)),
                    sv_url = js_or u (Some (JString (lit ''#''))),
                    sv_source = js_or s (Some (JString (lit ''Web''))) \<rparr>"
proof -
  from getProp_nonnull [OF assms] obtain t u s
    where "getProp item (lit ''title'') = Inr t" "getProp item (lit ''url'') = Inr u"
      "getProp item (lit ''source'') = Inr s" by metis
  then show ?thesis by (simp add: toStockVideo_def)
qed

lemma mapItems_null: "JNull \<in> set items \<Longrightarrow> \<exists>err. mapItems query items = Inl err"
proof (induction items)
  case Nil
  then show ?case by simp
next
  case (Cons item items)
  show ?case
  proof (cases "item = JNull")
    case True
    then show ?thesis by (simp add: toStockVideo_null)
  next
    case False
    with Cons obtain err where "mapItems query items = Inl err" by auto
    then show ?thesis by (simp split: sum.splits)
  qed
qed

lemma mapItems_nonnull:
  "JNull \<notin> set items \<Longrightarrow>
   \<exists>vs. mapItems query items = Inr vs \<and>
        list_all2 (\<lambda>item v. toStockVideo query item = Inr v) items vs"
proof (induction items)
  case Nil
  then show ?case by simp
next
  case (Cons item items)
  then obtain vs where vs: "mapItems query items = Inr vs"
    "list_all2 (\<lambda>item v. toStockVideo query item = Inr v) items vs" by auto
  from Cons.prems have "item \<noteq> JNull" by auto
  from toStockVideo_nonnull [OF this] obtain v where "toStockVideo query item = Inr v" by blast
  with vs show ?case by simp
qed

lemma toStockVideo_coerced:
  assumes "item \<noteq> JNull" and "toStockVideo query item = Inr v"
  shows "coerced query item v"
proof -
  from toStockVideo_nonnull [OF assms(1), of query] assms(2) obtain t u s
    where p: "getProp item (lit ''title'') = Inr t" "getProp item (lit ''url'') = Inr u"
      "getProp item (lit ''source'') = Inr s"
    and v: "v = \<lparr> sv_title = js_or t (Some (JString query)),
                    sv_url = js_or u (Some (JString (lit ''#''))),
                    sv_source = js_or s (Some (JString (lit ''Web''))) \<rparr>"
    by auto
  have "sv_title v \<noteq> None" "sv_url v \<noteq> None" "sv_source v \<noteq> None"
    by (simp_all add: v js_or_defined)
  moreover have "sv_title v = (if truthy t then t else Some (JString query))"
    "sv_url v = (if truthy u then u else Some (JString (lit ''#'')))"
    "sv_source v = (if truthy s then s else Some (JString (lit ''Web'')))"
    by (simp_all add: v js_or_def)
  ultimately show ?thesis unfolding coerced_def by (simp add: p)
qed

lemma mapItems_coerced:
  assumes "JNull \<notin> set items"
  shows "\<exists>vs. mapItems query items = Inr vs \<and> list_all2 (coerced query) items vs"
proof -
  from mapItems_nonnull [OF assms] obtain vs where vs: "mapItems query items = Inr vs"
    "list_all2 (\<lambda>item v. toStockVideo query item = Inr v) items vs" by blast
  have "list_all2 (coerced query) items vs"
  proof (rule list.rel_mono_strong [OF vs(2)])
    fix item v assume "item \<in> set items" "v \<in> set vs" "toStockVideo query item = Inr v"
    with assms show "coerced query item v"
      using toStockVideo_coerced by metis
  qed
  with vs(1) show ?thesis by blast
qed

lemma fsf_service_fails:
  "svc (footageRequest query) = Inl e \<Longrightarrow> findStockFootage parse svc query = Inr []"
  by (simp add: findStockFootage_def findStockFootage_try_def)

lemma fsf_no_match:
  "svc (footageRequest query) = Inr response \<Longrightarrow>
   matchJsonArray (str_or (resp_text response) []) = None \<Longrightarrow>
   findStockFootage parse svc query = Inr []"
  by (simp add: findStockFootage_def findStockFootage_try_def)

lemma fsf_parse_fails:
  "svc (footageRequest query) = Inr response \<Longrightarrow>
   matchJsonArray (str_or (resp_text response) []) = Some m \<Longrightarrow>
   parse m = None \<Longrightarrow>
   findStockFootage parse svc query = Inr []"
  by (simp add: findStockFootage_def findStockFootage_try_def)

lemma fsf_not_array:
  "svc (footageRequest query) = Inr response \<Longrightarrow>
   matchJsonArray (str_or (resp_text response) []) = Some m \<Longrightarrow>
   parse m = Some v \<Longrightarrow> \<forall>items. v \<noteq> JArray items \<Longrightarrow>
   findStockFootage parse svc query = Inr []"
  by (cases v) (simp_all add: findStockFootage_def findStockFootage_try_def)

lemma fsf_array:
  "svc (footageRequest query) = Inr response \<Longrightarrow>
   matchJsonArray (str_or (resp_text response) []) = Some m \<Longrightarrow>
   parse m = Some (JArray items) \<Longrightarrow>
   findStockFootage parse svc query =
     (case mapItems query items of Inl err \<Rightarrow> Inr [] | Inr vs \<Rightarrow> Inr vs)"
  by (simp add: findStockFootage_def findStockFootage_try_def)

lemma fsf_resolves: "\<exists>vs. findStockFootage parse svc query = Inr vs"
  by (simp add: findStockFootage_def split: sum.splits)

text \<open>
  Claim C4, as amended. \<^verbatim>\<open>findStockFootage\<close> always resolves. The array text is the
  substring of the model text from its first \<^verbatim>\<open>[\<close> to its last \<^verbatim>\<open>]\<close>; there is none
  exactly when no \<^verbatim>\<open>[\<close> is followed by a \<^verbatim>\<open>]\<close>. The result is the empty list when
  there is no such substring, when parsing it fails, and when the parsed value is not an
  array. When it is an array without a \<open>null\<close> element, the result has one record per
  element, in order, with a missing (or otherwise falsy) title replaced by the query, url
  by \<^verbatim>\<open>#\<close> and source by \<^verbatim>\<open>Web\<close>, and no field \<open>undefined\<close>. When the array has a
  \<open>null\<close> element, reading its fields throws, the catch-all handler takes over and
  the result is the empty list.
\<close>

theorem findStockFootage_extraction:
  "(\<exists>vs. findStockFootage parse svc query = Inr vs) \<and>
   (\<forall>response. svc (footageRequest query) = Inr response \<longrightarrow>
      (matchJsonArray (str_or (resp_text response) []) = None \<longleftrightarrow>
         \<not> (\<exists>a b c. str_or (resp_text response) [] = a @ 91 # b @ 93 # c)) \<and>
      (matchJsonArray (str_or (resp_text response) []) = None \<longrightarrow>
         findStockFootage parse svc query = Inr []) \<and>
      (\<forall>m. matchJsonArray (str_or (resp_text response) []) = Some m \<longrightarrow>
         (\<exists>pre body post. str_or (resp_text response) [] = pre @ m @ post \<and>
            m = 91 # body @ [93] \<and> 91 \<notin> set pre \<and> 93 \<notin> set post) \<and>
         (parse m = None \<longrightarrow> findStockFootage parse svc query = Inr []) \<and>
         (\<forall>v. parse m = Some v \<and> (\<forall>items. v \<noteq> JArray items) \<longrightarrow>
            findStockFootage parse svc query = Inr []) \<and>
         (\<forall>items. parse m = Some (JArray items) \<and> JNull \<notin> set items \<longrightarrow>
            (\<exists>vs. findStockFootage parse svc query = Inr vs \<and>
                  list_all2 (coerced query) items vs)) \<and>
         (\<forall>items. parse m = Some (JArray items) \<and> JNull \<in> set items \<longrightarrow>
            findStockFootage parse svc query = Inr [])))"
proof (intro conjI allI impI)
  show "\<exists>vs. findStockFootage parse svc query = Inr vs" by (rule fsf_resolves)
next
  fix response
  show "matchJsonArray (str_or (resp_text response) []) = None \<longleftrightarrow>
         \<not> (\<exists>a b c. str_or (resp_text response) [] = a @ 91 # b @ 93 # c)"
    by (rule matchJsonArray_None_iff)
next
  fix response
  assume "svc (footageRequest query) = Inr response"
    "matchJsonArray (str_or (resp_text response) []) = None"
  then show "findStockFootage parse svc query = Inr []" by (rule fsf_no_match)
next
  fix response m
  assume "matchJsonArray (str_or (resp_text response) []) = Some m"
  then show "\<exists>pre body post. str_or (resp_text response) [] = pre @ m @ post \<and>
            m = 91 # body @ [93] \<and> 91 \<notin> set pre \<and> 93 \<notin> set post"
    by (rule matchJsonArray_SomeD)
next
  fix response m
  assume "svc (footageRequest query) = Inr response"
    "matchJsonArray (str_or (resp_text response) []) = Some m" "parse m = None"
  then show "findStockFootage parse svc query = Inr []" by (rule fsf_parse_fails)
next
  fix response m v
  assume "svc (footageRequest query) = Inr response"
    "matchJsonArray (str_or (resp_text response) []) = Some m"
    "parse m = Some v \<and> (\<forall>items. v \<noteq> JArray items)"
  then show "findStockFootage parse svc query = Inr []" using fsf_not_array by blast
next
  fix response m items
  assume a: "svc (footageRequest query) = Inr response"
    "matchJsonArray (str_or (resp_text response) []) = Some m"
    and b: "parse m = Some (JArray items) \<and> JNull \<notin> set items"
  from b mapItems_coerced [of items query] obtain vs
    where "mapItems query items = Inr vs" "list_all2 (coerced query) items vs" by blast
  with fsf_array [where svc = svc and parse = parse, OF a] b
  show "\<exists>vs. findStockFootage parse svc query = Inr vs \<and> list_all2 (coerced query) items vs"
    by simp
next
  fix response m items
  assume a: "svc (footageRequest query) = Inr response"
    "matchJsonArray (str_or (resp_text response) []) = Some m"
    and b: "parse m = Some (JArray items) \<and> JNull \<in> set items"
  from b mapItems_null [of items query] obtain err where "mapItems query items = Inl err" by blast
  with fsf_array [where svc = svc and parse = parse, OF a] b
  show "findStockFootage parse svc query = Inr []" by simp
qed

lemma textService_resp:
  "textService t (footageRequest query) = Inr \<lparr> resp_text = Some t, candidates = None \<rparr>"
  by (simp add: textService_def)

lemma resp_text_simp: "resp_text \<lparr> resp_text = t, candidates = c \<rparr> = t"
  by simp

lemma match_prose: \<open>matchJsonArray (str_or (Some (lit ''here are results: [{"title":"a","url":"u","source":"Pexels"}] thanks'')) [])
   = Some (lit ''[{"title":"a","url":"u","source":"Pexels"}]'')\<close>
  by code_simp

lemma match_no_array: \<open>matchJsonArray (str_or (Some (lit ''no array here'')) []) = None\<close>
  by code_simp

lemma match_invalid: \<open>matchJsonArray (str_or (Some (lit ''[{not valid json}]'')) []) = Some (lit ''[{not valid json}]'')\<close>
  by code_simp

lemma parse_invalid: \<open>parseJSON (lit ''[{not valid json}]'') = None\<close>
  by code_simp

lemma parse_prose: \<open>parseJSON (lit ''[{"title":"a","url":"u","source":"Pexels"}]'') =
    Some (JArray [JObject [(lit ''title'', JString (lit ''a'')),
                               (lit ''url'', JString (lit ''u'')),
                               (lit ''source'', JString (lit ''Pexels''))]])\<close>
  by code_simp

lemma props_prose:
  "getProp (JObject [(lit ''title'', JString (lit ''a'')), (lit ''url'', JString (lit ''u'')),
                     (lit ''source'', JString (lit ''Pexels''))]) (lit ''title'') = Inr (Some (JString (lit ''a'')))"
  "getProp (JObject [(lit ''title'', JString (lit ''a'')), (lit ''url'', JString (lit ''u'')),
                     (lit ''source'', JString (lit ''Pexels''))]) (lit ''url'') = Inr (Some (JString (lit ''u'')))"
  "getProp (JObject [(lit ''title'', JString (lit ''a'')), (lit ''url'', JString (lit ''u'')),
                     (lit ''source'', JString (lit ''Pexels''))]) (lit ''source'') = Inr (Some (JString (lit ''Pexels'')))"
  by code_simp+

lemma truthy_nonempty_string: "truthy (Some (JString (lit ''a'')))" "truthy (Some (JString (lit ''u'')))"
  "truthy (Some (JString (lit ''Pexels'')))"
  by code_simp+

text \<open>The three examples of the specification, as instances of the theorem.\<close>

theorem findStockFootage_extraction_witness:
  \<open>findStockFootage parseJSON
      (textService (lit ''here are results: [{"title":"a","url":"u","source":"Pexels"}] thanks''))
      (lit ''rain'') =
     Inr [\<lparr> sv_title = Some (JString (lit ''a'')), sv_url = Some (JString (lit ''u'')),
             sv_source = Some (JString (lit ''Pexels'')) \<rparr>] \<and>
   findStockFootage parseJSON (textService (lit ''no array here'')) (lit ''rain'') = Inr [] \<and>
   findStockFootage parseJSON (textService (lit ''[{not valid json}]'')) (lit ''rain'') = Inr []\<close>
proof (intro conjI)
  let ?item = "JObject [(lit ''title'', JString (lit ''a'')), (lit ''url'', JString (lit ''u'')),
                        (lit ''source'', JString (lit ''Pexels''))]"
  have "JNull \<notin> set [?item]" by simp
  with findStockFootage_extraction
    [of parseJSON \<open>textService (lit ''here are results: [{"title":"a","url":"u","source":"Pexels"}] thanks'')\<close> "lit ''rain''"]
    textService_resp match_prose parse_prose
  obtain vs where r: \<open>findStockFootage parseJSON
      (textService (lit ''here are results: [{"title":"a","url":"u","source":"Pexels"}] thanks''))
      (lit ''rain'') = Inr vs\<close>
    and l: "list_all2 (coerced (lit ''rain'')) [?item] vs"
    by (metis resp_text_simp)
  from l obtain v where vs: "vs = [v]" and c: "coerced (lit ''rain'') ?item v"
    by (auto simp: list_all2_Cons1)
  from c have "sv_title v = Some (JString (lit ''a''))" "sv_url v = Some (JString (lit ''u''))"
    "sv_source v = Some (JString (lit ''Pexels''))"
    unfolding coerced_def props_prose using truthy_nonempty_string by simp_all
  then have "v = \<lparr> sv_title = Some (JString (lit ''a'')), sv_url = Some (JString (lit ''u'')),
             sv_source = Some (JString (lit ''Pexels'')) \<rparr>"
    by (cases v) simp
  with r vs show \<open>findStockFootage parseJSON
      (textService (lit ''here are results: [{"title":"a","url":"u","source":"Pexels"}] thanks''))
      (lit ''rain'') =
     Inr [\<lparr> sv_title = Some (JString (lit ''a'')), sv_url = Some (JString (lit ''u'')),
             sv_source = Some (JString (lit ''Pexels'')) \<rparr>]\<close> by simp
next
  from findStockFootage_extraction
    [of parseJSON "textService (lit ''no array here'')" "lit ''rain''"]
    textService_resp match_no_array
  show "findStockFootage parseJSON (textService (lit ''no array here'')) (lit ''rain'') = Inr []"
    by (metis resp_text_simp)
next
  from findStockFootage_extraction
    [of parseJSON "textService (lit ''[{not valid json}]'')" "lit ''rain''"]
    textService_resp match_invalid parse_invalid
  show "findStockFootage parseJSON (textService (lit ''[{not valid json}]'')) (lit ''rain'') = Inr []"
    by (metis resp_text_simp)
qed

text \<open>
  Claim C4 as stated fails: the model text \<^verbatim>\<open>[{"title":"a"},null]\<close> is matched whole
  and parses to an array of two elements, yet no element is returned: the result is the
  empty list.
\<close>

theorem findStockFootage_null_element_counterexample:
  \<open>matchJsonArray (lit ''[{"title":"a"},null]'') = Some (lit ''[{"title":"a"},null]'') \<and>
   parseJSON (lit ''[{"title":"a"},null]'') =
     Some (JArray [JObject [(lit ''title'', JString (lit ''a''))], JNull]) \<and>
   findStockFootage parseJSON (textService (lit ''[{"title":"a"},null]'')) (lit ''rain'') = Inr []\<close>
  by code_simp

subsection \<open>Suggestions\<close>

lemma splitOn_nonempty: "splitOn sep s \<noteq> []"
  by (induction s) (auto split: list.splits)

lemma joinWith_Cons:
  "ls \<noteq> [] \<Longrightarrow> joinWith sep (l # ls) = l @ sep # joinWith sep ls"
  by (cases ls) auto

lemma joinWith_splitOn: "joinWith sep (splitOn sep s) = s"
proof (induction s)
  case Nil
  then show ?case by simp
next
  case (Cons c cs)
  obtain l0 ls where sp: "splitOn sep cs = l0 # ls"
    using splitOn_nonempty [of sep cs] by (cases "splitOn sep cs") auto
  show ?case
  proof (cases "c = sep")
    case True
    then show ?thesis using Cons.IH sp by simp
  next
    case False
    have "joinWith sep ((c # l0) # ls) = c # joinWith sep (l0 # ls)"
      by (cases ls) auto
    then show ?thesis using False Cons.IH sp by simp
  qed
qed

lemma splitOn_joinWith:
  "ls \<noteq> [] \<Longrightarrow> \<forall>l\<in>set ls. sep \<notin> set l \<Longrightarrow> splitOn sep (joinWith sep ls) = ls"
proof (induction sep ls rule: joinWith.induct)
  case (1 sep)
  then show ?case by simp
next
  case (2 sep l)
  then have "sep \<notin> set l" by simp
  then have "splitOn sep l = [l]"
    by (induction l) auto
  then show ?case by simp
next
  case (3 sep l l' ls)
  then have IH: "splitOn sep (joinWith sep (l' # ls)) = l' # ls" by simp
  from 3 have "sep \<notin> set l" by simp
  then have "splitOn sep (l @ sep # joinWith sep (l' # ls)) = l # l' # ls"
    using IH by (induction l) auto
  then show ?case by simp
qed

lemma joinWith_member_substring:
  "l \<in> set ls \<Longrightarrow> \<exists>a b. joinWith sep ls = a @ l @ b"
proof (induction sep ls rule: joinWith.induct)
  case (1 sep)
  then show ?case by simp
next
  case (2 sep l')
  then have "joinWith sep [l'] = [] @ l @ []" by simp
  then show ?case by blast
next
  case (3 sep l0 l' ls)
  from "3.prems" have "l = l0 \<or> l \<in> set (l' # ls)" by auto
  then show ?case
  proof
    assume "l = l0"
    then have "joinWith sep (l0 # l' # ls) = [] @ l @ (sep # joinWith sep (l' # ls))" by simp
    then show ?thesis by blast
  next
    assume "l \<in> set (l' # ls)"
    from "3.IH" [OF this] obtain a b where "joinWith sep (l' # ls) = a @ l @ b" by blast
    then have "joinWith sep (l0 # l' # ls) = (l0 @ sep # a) @ l @ b" by simp
    then show ?thesis by blast
  qed
qed

lemma splitOn_line_is_substring:
  assumes "l \<in> set (splitOn sep s)"
  shows "\<exists>a b. s = a @ l @ b"
  using joinWith_member_substring [OF assms, of sep] by (simp add: joinWith_splitOn)

lemma includes_line_includes_text:
  assumes "l \<in> set (splitOn sep s)" and "str_includes l pat"
  shows "str_includes s pat"
proof -
  from splitOn_line_is_substring [OF assms(1)] obtain a b where s: "s = a @ l @ b" by blast
  from assms(2) obtain a' b' where "l = a' @ pat @ b'" unfolding str_includes_iff by blast
  with s have "s = (a @ a') @ pat @ (b' @ b)" by simp
  then show ?thesis unfolding str_includes_iff by blast
qed

lemma foldl_collectSuggestion:
  "foldl collectSuggestion found ls =
     found @ filter (\<lambda>t. t \<noteq> [])
       (map (\<lambda>l. trim (replaceFirst SUGGESTION_MARKER [] l))
         (filter (\<lambda>l. str_includes l SUGGESTION_MARKER) ls))"
  by (induction ls arbitrary: found) (simp_all add: collectSuggestion_def Let_def)

lemma replaceFirst_prefix:
  "pat \<noteq> [] \<Longrightarrow> replaceFirst pat rep (pat @ rest) = rep @ rest"
  by (cases pat) simp_all

lemma SUGGESTION_MARKER_nonempty: "SUGGESTION_MARKER \<noteq> []"
  by (simp add: SUGGESTION_MARKER_def lit_def)

lemma trim_leading_space: "trim (32 # s) = trim s"
  by (simp add: trim_def is_space_def)

lemma lit_append: "lit (a @ b) = lit a @ lit b"
  by (simp add: lit_def)

lemma suggestion_line_title:
  "trim (replaceFirst SUGGESTION_MARKER [] (lit ''> SUGGESTION: '' @ x)) = trim x"
proof -
  have "lit ''> SUGGESTION: '' = SUGGESTION_MARKER @ [32]"
    by (simp add: SUGGESTION_MARKER_def lit_def)
  then have "replaceFirst SUGGESTION_MARKER [] (lit ''> SUGGESTION: '' @ x) = 32 # x"
    using replaceFirst_prefix [OF SUGGESTION_MARKER_nonempty, of "[]" "32 # x"] by simp
  then show ?thesis by (simp add: trim_leading_space)
qed

lemma parseSuggestions_eq:
  "parseSuggestions script =
     (if script = [] then []
      else filter (\<lambda>t. t \<noteq> [])
        (map (\<lambda>l. trim (replaceFirst SUGGESTION_MARKER [] l))
          (filter (\<lambda>l. str_includes l SUGGESTION_MARKER) (splitOn 10 script))))"
  by (simp add: parseSuggestions_def foldl_collectSuggestion)

text \<open>
  Claim C5, as amended. The script is scanned line by line. When the lines that contain
  the marker \<^verbatim>\<open>> SUGGESTION:\<close> are exactly three lines of the form
  \<^verbatim>\<open>> SUGGESTION: X\<close>, each with a title that is not blank, the result is the three
  trimmed titles in the order of the lines. When the marker does not occur in the script,
  the result is the empty list. In general the result is the list of the non-empty
  trimmed remainders of the lines that contain the marker, with the first occurrence of
  the marker removed: a line whose title is blank contributes nothing.
\<close>

theorem parseSuggestions_three_titles:
  "(filter (\<lambda>l. str_includes l SUGGESTION_MARKER) (splitOn 10 script) =
      [lit ''> SUGGESTION: '' @ x1, lit ''> SUGGESTION: '' @ x2, lit ''> SUGGESTION: '' @ x3] \<and>
    trim x1 \<noteq> [] \<and> trim x2 \<noteq> [] \<and> trim x3 \<noteq> [] \<longrightarrow>
      parseSuggestions script = [trim x1, trim x2, trim x3]) \<and>
   (\<not> str_includes script SUGGESTION_MARKER \<longrightarrow> parseSuggestions script = []) \<and>
   parseSuggestions script =
     (if script = [] then []
      else filter (\<lambda>t. t \<noteq> [])
        (map (\<lambda>l. trim (replaceFirst SUGGESTION_MARKER [] l))
          (filter (\<lambda>l. str_includes l SUGGESTION_MARKER) (splitOn 10 script))))"
proof (intro conjI impI)
  show "parseSuggestions script =
     (if script = [] then []
      else filter (\<lambda>t. t \<noteq> [])
        (map (\<lambda>l. trim (replaceFirst SUGGESTION_MARKER [] l))
          (filter (\<lambda>l. str_includes l SUGGESTION_MARKER) (splitOn 10 script))))"
    by (rule parseSuggestions_eq)
next
  assume a: "filter (\<lambda>l. str_includes l SUGGESTION_MARKER) (splitOn 10 script) =
      [lit ''> SUGGESTION: '' @ x1, lit ''> SUGGESTION: '' @ x2, lit ''> SUGGESTION: '' @ x3] \<and>
      trim x1 \<noteq> [] \<and> trim x2 \<noteq> [] \<and> trim x3 \<noteq> []"
  have "script \<noteq> []"
  proof
    assume "script = []"
    then have "filter (\<lambda>l. str_includes l SUGGESTION_MARKER) (splitOn 10 script) = []"
      using SUGGESTION_MARKER_nonempty by simp
    with a show False by simp
  qed
  with a show "parseSuggestions script = [trim x1, trim x2, trim x3]"
    by (simp add: parseSuggestions_eq suggestion_line_title)
next
  assume n: "\<not> str_includes script SUGGESTION_MARKER"
  have "filter (\<lambda>l. str_includes l SUGGESTION_MARKER) (splitOn 10 script) = []"
    using includes_line_includes_text n by (fastforce simp: filter_empty_conv)
  then show "parseSuggestions script = []"
    by (simp add: parseSuggestions_eq)
qed

lemma trim_examples:
  "trim (lit ''Zodiac'') = lit ''Zodiac''" "trim (lit '' Cooper '') = lit ''Cooper''"
  "trim (lit ''Dahlia'') = lit ''Dahlia''" "trim (lit ''A'') = lit ''A''" "trim [] = []"
  "trim (lit ''C'') = lit ''C''"
  by (simp_all add: trim_def is_space_def lit_def)

theorem parseSuggestions_three_titles_witness:
  "parseSuggestions (lit ''Intro\<newline>> SUGGESTION: Zodiac\<newline>> SUGGESTION:  Cooper \<newline>> SUGGESTION: Dahlia'')
     = [lit ''Zodiac'', lit ''Cooper'', lit ''Dahlia''] \<and>
   parseSuggestions (lit ''no suggestions here'') = []"
proof
  have lines: "filter (\<lambda>l. str_includes l SUGGESTION_MARKER)
      (splitOn 10 (lit ''Intro\<newline>> SUGGESTION: Zodiac\<newline>> SUGGESTION:  Cooper \<newline>> SUGGESTION: Dahlia'')) =
      [lit ''> SUGGESTION: '' @ lit ''Zodiac'', lit ''> SUGGESTION: '' @ lit '' Cooper '',
       lit ''> SUGGESTION: '' @ lit ''Dahlia'']"
    by code_simp
  have nonblank: "trim (lit ''Zodiac'') \<noteq> []" "trim (lit '' Cooper '') \<noteq> []" "trim (lit ''Dahlia'') \<noteq> []"
    by (simp_all add: trim_examples) (simp_all add: lit_def)
  from parseSuggestions_three_titles
    [of "lit ''Intro\<newline>> SUGGESTION: Zodiac\<newline>> SUGGESTION:  Cooper \<newline>> SUGGESTION: Dahlia''"
        "lit ''Zodiac''" "lit '' Cooper ''" "lit ''Dahlia''"]
    lines nonblank
  have "parseSuggestions (lit ''Intro\<newline>> SUGGESTION: Zodiac\<newline>> SUGGESTION:  Cooper \<newline>> SUGGESTION: Dahlia'')
     = [trim (lit ''Zodiac''), trim (lit '' Cooper ''), trim (lit ''Dahlia'')]"
    by blast
  then show "parseSuggestions (lit ''Intro\<newline>> SUGGESTION: Zodiac\<newline>> SUGGESTION:  Cooper \<newline>> SUGGESTION: Dahlia'')
     = [lit ''Zodiac'', lit ''Cooper'', lit ''Dahlia'']"
    by (simp only: trim_examples)
next
  have "\<not> str_includes (lit ''no suggestions here'') SUGGESTION_MARKER"
    by code_simp
  with parseSuggestions_three_titles [of "lit ''no suggestions here''"]
  show "parseSuggestions (lit ''no suggestions here'') = []"
    by blast
qed

text \<open>
  Claim C5 as stated fails: this script consists of exactly three lines of the form
  \<^verbatim>\<open>> SUGGESTION: X\<close>, the second with an empty title, and the result has two titles.
\<close>

theorem parseSuggestions_blank_title_counterexample:
  "splitOn 10 (lit ''> SUGGESTION: A\<newline>> SUGGESTION: \<newline>> SUGGESTION: C'') =
     [lit ''> SUGGESTION: '' @ lit ''A'', lit ''> SUGGESTION: '' @ [], lit ''> SUGGESTION: '' @ lit ''C''] \<and>
   parseSuggestions (lit ''> SUGGESTION: A\<newline>> SUGGESTION: \<newline>> SUGGESTION: C'') =
     [lit ''A'', lit ''C'']"
proof
  show "splitOn 10 (lit ''> SUGGESTION: A\<newline>> SUGGESTION: \<newline>> SUGGESTION: C'') =
     [lit ''> SUGGESTION: '' @ lit ''A'', lit ''> SUGGESTION: '' @ [], lit ''> SUGGESTION: '' @ lit ''C'']"
    by code_simp
next
  have ne: "lit ''> SUGGESTION: A\<newline>> SUGGESTION: \<newline>> SUGGESTION: C'' \<noteq> []"
    by (simp add: lit_def)
  have lines: "filter (\<lambda>l. str_includes l SUGGESTION_MARKER)
      (splitOn 10 (lit ''> SUGGESTION: A\<newline>> SUGGESTION: \<newline>> SUGGESTION: C'')) =
      [lit ''> SUGGESTION: '' @ lit ''A'', lit ''> SUGGESTION: '' @ [], lit ''> SUGGESTION: '' @ lit ''C'']"
    by code_simp
  have "lit ''A'' \<noteq> []" "lit ''C'' \<noteq> []" by (simp_all add: lit_def)
  then show "parseSuggestions (lit ''> SUGGESTION: A\<newline>> SUGGESTION: \<newline>> SUGGESTION: C'') =
     [lit ''A'', lit ''C'']"
    unfolding parseSuggestions_eq lines using ne
    by (simp add: suggestion_line_title suggestion_line_title [of "[]", simplified] trim_examples)
qed

subsection \<open>Media components\<close>

lemma run_events_idle:
  "(\<And>ev. step st ev = st) \<Longrightarrow> set (run_events step st evs) = {st}"
  by (induction evs) auto

lemma run_events_nonempty: "run_events step st evs \<noteq> []"
  by (cases evs) auto

lemma last_run_events_idle:
  "(\<And>ev. step st ev = st) \<Longrightarrow> last (run_events step st evs) = st"
  using run_events_idle [of step st evs] run_events_nonempty [of step st evs] last_in_set
  by blast

lemma isWikiWrapper_nonempty: "isWikiWrapper src \<Longrightarrow> src \<noteq> []"
  by (auto simp: isWikiWrapper_def lit_def)

lemma image_effect_wrapper:
  "isWikiWrapper src \<Longrightarrow>
   image_effect (Some src) image_initial = \<lparr> img_status = Error, img_pending = None, img_loads = [] \<rparr>"
  by (simp add: image_effect_def image_initial_def isWikiWrapper_nonempty)

lemma image_step_idle: "img_pending st = None \<Longrightarrow> image_step st ev = st"
  by (simp add: image_step_def)

lemma image_lifecycle_wrapper:
  assumes "isWikiWrapper src"
  shows "set (image_lifecycle (Some src) evs) =
           {image_initial, \<lparr> img_status = Error, img_pending = None, img_loads = [] \<rparr>}"
    and "hd (image_lifecycle (Some src) evs) = image_initial"
    and "set (tl (image_lifecycle (Some src) evs)) = {\<lparr> img_status = Error, img_pending = None, img_loads = [] \<rparr>}"
proof -
  have "set (run_events image_step \<lparr> img_status = Error, img_pending = None, img_loads = [] \<rparr> evs) =
      {\<lparr> img_status = Error, img_pending = None, img_loads = [] \<rparr>}"
    by (rule run_events_idle) (simp add: image_step_idle)
  then show "set (image_lifecycle (Some src) evs) =
           {image_initial, \<lparr> img_status = Error, img_pending = None, img_loads = [] \<rparr>}"
    and "set (tl (image_lifecycle (Some src) evs)) = {\<lparr> img_status = Error, img_pending = None, img_loads = [] \<rparr>}"
    by (simp_all add: image_lifecycle_def image_effect_wrapper [OF assms])
  show "hd (image_lifecycle (Some src) evs) = image_initial"
    by (simp add: image_lifecycle_def)
qed

text \<open>
  Claim C6, as amended. For an image URL that contains \<^verbatim>\<open>wiki/File:\<close> or
  \<^verbatim>\<open>wiki/Image:\<close>, in every state the instance goes through, whatever events arrive: no
  probe image is ever started for the URL and neither component renders an image
  element. \<^verbatim>\<open>MarkdownImageComponent\<close> renders the view-source-page link card in every
  state. \<^verbatim>\<open>ScriptImage\<close> renders the loading placeholder on its first render and nothing
  from then on: it has no link card.
\<close>

theorem wiki_wrapper_never_loaded:
  assumes "isWikiWrapper src"
  shows "(\<forall>st \<in> set (image_lifecycle (Some src) evs).
            img_loads st = [] \<and>
            MarkdownImage_render (Some src) alt (img_status st) =
              ViewSourceCard src (str_or alt (lit ''Wikipedia Image'')) \<and>
            (ScriptImage_render (Some src) alt (img_status st) = LoadingPlaceholder \<or>
             ScriptImage_render (Some src) alt (img_status st) = RenderNothing)) \<and>
         ScriptImage_render (Some src) alt (img_status (hd (image_lifecycle (Some src) evs))) =
           LoadingPlaceholder \<and>
         (\<forall>st \<in> set (tl (image_lifecycle (Some src) evs)).
            img_status st = Error \<and> ScriptImage_render (Some src) alt (img_status st) = RenderNothing)"
proof -
  note ne = isWikiWrapper_nonempty [OF assms]
  have md: "MarkdownImage_render (Some src) alt s =
      ViewSourceCard src (str_or alt (lit ''Wikipedia Image''))" for s
    using assms ne by (simp add: MarkdownImage_render_def)
  have s0: "ScriptImage_render (Some src) alt Loading = LoadingPlaceholder"
    using ne by (simp add: ScriptImage_render_def)
  have s1: "ScriptImage_render (Some src) alt Error = RenderNothing"
    by (simp add: ScriptImage_render_def)
  show ?thesis
    unfolding image_lifecycle_wrapper [OF assms]
    by (simp add: md s0 s1 image_initial_def)
qed

lemma take_id_length: "take_id s = Some v \<Longrightarrow> length v = 11"
  by (auto simp: take_id_def split: if_splits)

lemma last_id_from_length: "last_id_from k s = Some v \<Longrightarrow> length v = 11"
  by (induction k) (auto split: option.splits dest: take_id_length)

lemma match_here_length: "match_here s = Some v \<Longrightarrow> length v = 11"
  by (auto simp: match_here_def Let_def user_id_def split: if_splits
           dest: take_id_length last_id_from_length)

lemma first_match_length: "first_match s = Some v \<Longrightarrow> length v = 11"
  by (induction s) (auto split: option.splits dest: match_here_length)

lemma getVideoId_length: "getVideoId url = Some v \<Longrightarrow> length v = 11"
  by (auto simp: getVideoId_def split: if_splits dest: first_match_length)

lemma embed_step_idle: "thumb_pending st = None \<Longrightarrow> embed_step st ev = st"
  by (simp add: embed_step_def)

lemma embed_lifecycle_placeholder:
  assumes "getVideoId url = Some videoId" and "width \<le> 120"
  shows "embed_lifecycle url (ThumbLoad width # evs) =
           embed_initial #
           \<lparr> isValid = None, thumb_pending = Some (thumbnailUrl videoId),
             thumb_loads = [thumbnailUrl videoId] \<rparr> #
           run_events embed_step
             \<lparr> isValid = Some False, thumb_pending = None, thumb_loads = [thumbnailUrl videoId] \<rparr> evs"
  using assms
  by (simp add: embed_lifecycle_def embed_effect_def embed_initial_def embed_step_def)

text \<open>
  Claim C7. When an identifier is extracted from the link (it has eleven code units) and
  the thumbnail probe loads with a width of at most 120 pixels, then in no state the
  instance goes through is the embedded player rendered; from the load event on the
  validity is \<open>false\<close>, the error state, and the render is the video-restricted card,
  whose search link is seeded with the title when that is a string and with
  \<^verbatim>\<open>related video\<close> otherwise; this is also the last state, whatever events follow.
\<close>

theorem placeholder_thumbnail_never_embeds:
  assumes "getVideoId url = Some videoId" and "width \<le> 120"
  shows "length videoId = 11 \<and>
         (\<forall>st \<in> set (embed_lifecycle url (ThumbLoad width # evs)).
            \<forall>src. YouTubeEmbed_render url title (isValid st) \<noteq> IframePlayer src) \<and>
         (\<forall>st \<in> set (drop 2 (embed_lifecycle url (ThumbLoad width # evs))).
            isValid st = Some False \<and>
            YouTubeEmbed_render url title (isValid st) =
              VideoRestrictedCard
                (case title of Some (StringNode t) \<Rightarrow> t | _ \<Rightarrow> lit ''related video'')) \<and>
         isValid (last (embed_lifecycle url (ThumbLoad width # evs))) = Some False \<and>
         YouTubeEmbed_render url title (isValid (last (embed_lifecycle url (ThumbLoad width # evs)))) =
           VideoRestrictedCard
             (case title of Some (StringNode t) \<Rightarrow> t | _ \<Rightarrow> lit ''related video'')"
proof -
  let ?final = "\<lparr> isValid = Some False, thumb_pending = None, thumb_loads = [thumbnailUrl videoId] \<rparr>"
  have idle: "embed_step ?final ev = ?final" for ev
    by (simp add: embed_step_idle)
  have rest: "set (run_events embed_step ?final evs) = {?final}"
    by (rule run_events_idle) (rule idle)
  have lst: "last (run_events embed_step ?final evs) = ?final"
    by (rule last_run_events_idle) (rule idle)
  have r0: "YouTubeEmbed_render url title None = Verifying"
    using assms(1) by (simp add: YouTubeEmbed_render_def)
  have r1: "YouTubeEmbed_render url title (Some False) =
      VideoRestrictedCard (case title of Some (StringNode t) \<Rightarrow> t | _ \<Rightarrow> lit ''related video'')"
    using assms(1) by (simp add: YouTubeEmbed_render_def)
  show ?thesis
    unfolding embed_lifecycle_placeholder [OF assms]
    using getVideoId_length [OF assms(1)] run_events_nonempty [of embed_step ?final evs]
    by (simp add: rest lst r0 r1 embed_initial_def)
qed

theorem placeholder_thumbnail_never_embeds_witness:
  "getVideoId (lit ''https://www.youtube.com/watch?v=dQw4w9WgXcQ'') = Some (lit ''dQw4w9WgXcQ'') \<and>
   isValid (last (embed_lifecycle (lit ''https://www.youtube.com/watch?v=dQw4w9WgXcQ'') [ThumbLoad 120]))
     = Some False \<and>
   YouTubeEmbed_render (lit ''https://www.youtube.com/watch?v=dQw4w9WgXcQ'')
     (Some (StringNode (lit ''Interview'')))
     (isValid (last (embed_lifecycle (lit ''https://www.youtube.com/watch?v=dQw4w9WgXcQ'') [ThumbLoad 120])))
     = VideoRestrictedCard (lit ''Interview'')"
proof -
  have v: "getVideoId (lit ''https://www.youtube.com/watch?v=dQw4w9WgXcQ'') = Some (lit ''dQw4w9WgXcQ'')"
    by code_simp
  have w: "(120::nat) \<le> 120" by simp
  note t = placeholder_thumbnail_never_embeds
    [OF v w, of "[]" "Some (StringNode (lit ''Interview''))",
     THEN conjunct2, THEN conjunct2, THEN conjunct2]
  from t have a: "isValid (last (embed_lifecycle (lit ''https://www.youtube.com/watch?v=dQw4w9WgXcQ'') [ThumbLoad 120]))
     = Some False" by (rule conjunct1)
  from t [THEN conjunct2] have b: "YouTubeEmbed_render (lit ''https://www.youtube.com/watch?v=dQw4w9WgXcQ'')
     (Some (StringNode (lit ''Interview'')))
     (isValid (last (embed_lifecycle (lit ''https://www.youtube.com/watch?v=dQw4w9WgXcQ'') [ThumbLoad 120])))
     = VideoRestrictedCard (lit ''Interview'')" by simp
  show ?thesis by (intro conjI) (rule v, rule a, rule b)
qed

lemma wrapper_example: "isWikiWrapper (lit ''https://en.wikipedia.org/wiki/File:Mugshot.jpg'')"
  unfolding isWikiWrapper_def by code_simp

theorem wiki_wrapper_never_loaded_witness:
  "img_loads (last (image_lifecycle (Some (lit ''https://en.wikipedia.org/wiki/File:Mugshot.jpg'')) [OnLoad])) = [] \<and>
   MarkdownImage_render (Some (lit ''https://en.wikipedia.org/wiki/File:Mugshot.jpg''))
     (Some (lit ''Evidence: Mugshot''))
     (img_status (last (image_lifecycle (Some (lit ''https://en.wikipedia.org/wiki/File:Mugshot.jpg'')) [OnLoad])))
     = ViewSourceCard (lit ''https://en.wikipedia.org/wiki/File:Mugshot.jpg'') (lit ''Evidence: Mugshot'')"
proof -
  have mem: "last (image_lifecycle (Some (lit ''https://en.wikipedia.org/wiki/File:Mugshot.jpg'')) [OnLoad])
      \<in> set (image_lifecycle (Some (lit ''https://en.wikipedia.org/wiki/File:Mugshot.jpg'')) [OnLoad])"
    by (rule last_in_set) (simp add: image_lifecycle_def)
  have alt: "str_or (Some (lit ''Evidence: Mugshot'')) (lit ''Wikipedia Image'') = lit ''Evidence: Mugshot''"
    by (simp add: str_or_def lit_def)
  from wiki_wrapper_never_loaded [OF wrapper_example, of "[OnLoad]" "Some (lit ''Evidence: Mugshot'')"] mem
  show ?thesis unfolding alt by blast
qed

text \<open>
  Claim C6 as stated fails for \<^verbatim>\<open>ScriptImage\<close>: at a wiki wrapper URL its two renders
  are the loading placeholder and nothing, never the link card.
\<close>

theorem script_image_wrapper_counterexample:
  "isWikiWrapper (lit ''https://en.wikipedia.org/wiki/File:Mugshot.jpg'') \<and>
   image_lifecycle (Some (lit ''https://en.wikipedia.org/wiki/File:Mugshot.jpg'')) [] =
     [\<lparr> img_status = Loading, img_pending = None, img_loads = [] \<rparr>,
      \<lparr> img_status = Error, img_pending = None, img_loads = [] \<rparr>] \<and>
   ScriptImage_render (Some (lit ''https://en.wikipedia.org/wiki/File:Mugshot.jpg''))
     (Some (lit ''Evidence: Mugshot'')) Loading = LoadingPlaceholder \<and>
   ScriptImage_render (Some (lit ''https://en.wikipedia.org/wiki/File:Mugshot.jpg''))
     (Some (lit ''Evidence: Mugshot'')) Error = RenderNothing"
proof -
  note w = wrapper_example
  have ne: "lit ''https://en.wikipedia.org/wiki/File:Mugshot.jpg'' \<noteq> []"
    by (simp add: lit_def)
  show ?thesis
    using w ne
    by (simp add: image_lifecycle_def image_effect_def image_initial_def ScriptImage_render_def)
qed

declare digits.simps [simp del]

subsection \<open>The reference codec reads back what it writes\<close>

text \<open>Strings.\<close>

lemma hexval_hexdigit: "d < 16 \<Longrightarrow> hexval (hexdigit d) = Some d"
  by (auto simp: hexval_def hexdigit_def)

lemma hex_recompose:
  fixes c :: nat
  assumes "c < 65536"
  shows "16 * (16 * (16 * (c div 4096 mod 16) + c div 256 mod 16) + c div 16 mod 16) + c mod 16 = c"
proof -
  have a: "c div 4096 mod 16 = c div 4096" using assms by simp
  have b: "c div 256 = 16 * (c div 4096) + c div 256 mod 16"
  proof -
    have "c div 4096 = c div 256 div 16" by (simp add: div_mult2_eq [symmetric])
    then show ?thesis by simp
  qed
  have d: "c div 16 = 16 * (c div 256) + c div 16 mod 16"
  proof -
    have "c div 256 = c div 16 div 16" by (simp add: div_mult2_eq [symmetric])
    then show ?thesis by simp
  qed
  have e: "c = 16 * (c div 16) + c mod 16" by simp
  show ?thesis
    unfolding a by (simp only: b [symmetric] d [symmetric] e [symmetric])
qed

lemma scan_unicode_escape:
  assumes "c < 65536"
  shows "scan_string Plain (unicode_escape c @ t) = cons_unit c (scan_string Plain t)"
proof -
  have h: "hexval (hexdigit (c div 4096 mod 16)) = Some (c div 4096 mod 16)"
    "hexval (hexdigit (c div 256 mod 16)) = Some (c div 256 mod 16)"
    "hexval (hexdigit (c div 16 mod 16)) = Some (c div 16 mod 16)"
    "hexval (hexdigit (c mod 16)) = Some (c mod 16)"
    by (simp_all add: hexval_hexdigit)
  have "scan_string Plain (unicode_escape c @ t) =
      cons_unit (16 * (16 * (16 * (c div 4096 mod 16) + c div 256 mod 16) + c div 16 mod 16) + c mod 16)
        (scan_string Plain t)"
    unfolding unicode_escape_def by (simp add: h)
  then show ?thesis by (simp only: hex_recompose [OF assms])
qed

lemma scan_quote_unit:
  "scan_string Plain (quote_unit c @ t) = cons_unit c (scan_string Plain t)"
proof (cases "c < 32 \<or> is_high_surrogate c \<or> is_low_surrogate c")
  case True
  then have "c < 65536" by (auto simp: is_high_surrogate_def is_low_surrogate_def)
  from scan_unicode_escape [OF this] True show ?thesis
    by (auto simp: quote_unit_def unescape_def)
next
  case False
  then show ?thesis
    by (auto simp: quote_unit_def unescape_def)
qed

lemma scan_quote_body:
  "scan_string Plain (quote_body s @ 34 # rest) = Some (s, rest)"
proof (induction s rule: quote_body.induct)
  case 1
  then show ?case by simp
next
  case (2 c)
  then show ?case by (simp add: scan_quote_unit cons_unit_def)
next
  case (3 c d cs)
  show ?case
  proof (cases "is_high_surrogate c \<and> is_low_surrogate d")
    case True
    then have "c \<noteq> 34" "c \<noteq> 92" "\<not> c < 32" "d \<noteq> 34" "d \<noteq> 92" "\<not> d < 32"
      by (auto simp: is_high_surrogate_def is_low_surrogate_def)
    then show ?thesis using True 3 by (simp add: cons_unit_def)
  next
    case False
    then have q: "quote_body (c # d # cs) = quote_unit c @ quote_body (d # cs)" by auto
    have "scan_string Plain (quote_body (c # d # cs) @ 34 # rest) =
        cons_unit c (scan_string Plain (quote_body (d # cs) @ 34 # rest))"
      by (simp only: q append_assoc scan_quote_unit)
    also have "\<dots> = Some (c # d # cs, rest)"
      using 3(2) [OF False] by (simp add: cons_unit_def)
    finally show ?thesis .
  qed
qed

lemma scan_quoteJSONString:
  "quoteJSONString s @ rest = 34 # quote_body s @ 34 # rest"
  by (simp add: quoteJSONString_def)

text \<open>Numbers.\<close>

lemma digits_nonempty: "digits n \<noteq> []"
  by (subst digits.simps) simp

lemma digits_all_digit: "c \<in> set (digits n) \<Longrightarrow> is_digit c"
proof (induction n arbitrary: c rule: digits.induct)
  case (1 n)
  show ?case
  proof (cases "n < 10")
    case True
    with "1.prems" show ?thesis by (subst (asm) digits.simps) (simp add: is_digit_def)
  next
    case False
    from "1.prems" have "c \<in> set (digits (n div 10)) \<or> c = 48 + n mod 10"
      using False by (subst (asm) digits.simps) auto
    then show ?thesis
    proof
      assume "c \<in> set (digits (n div 10))"
      with "1.IH" False show ?thesis by simp
    next
      assume "c = 48 + n mod 10"
      moreover have "n mod 10 < 10" by simp
      ultimately show ?thesis by (simp add: is_digit_def)
    qed
  qed
qed

lemma digits_hd: "hd (digits n) = 48 \<longleftrightarrow> n = 0"
proof (induction n rule: digits.induct)
  case (1 n)
  show ?case
  proof (cases "n < 10")
    case True
    then show ?thesis by (subst digits.simps) simp
  next
    case False
    then have "hd (digits n) = hd (digits (n div 10))"
      by (subst digits.simps) (simp add: digits_nonempty)
    moreover have "n div 10 \<noteq> 0" using False by simp
    ultimately show ?thesis using "1.IH" False by simp
  qed
qed

lemma digits_zero: "digits 0 = [48]"
  by (subst digits.simps) simp

lemma digits_value_Nil: "digits_value [] = 0"
  by (simp add: digits_value_def)

lemma digits_value_snoc: "digits_value (ds @ [c]) = 10 * digits_value ds + (c - 48)"
  by (simp add: digits_value_def)

lemma digits_value_digits: "digits_value (digits n) = n"
proof (induction n rule: digits.induct)
  case (1 n)
  show ?case
  proof (cases "n < 10")
    case True
    then show ?thesis by (subst digits.simps) (simp add: digits_value_def)
  next
    case False
    then have "digits n = digits (n div 10) @ [48 + n mod 10]"
      by (subst digits.simps) simp
    then show ?thesis using "1.IH" False by (simp add: digits_value_snoc)
  qed
qed

lemma takeWhile_digits:
  assumes "number_end rest"
  shows "takeWhile is_digit (digits n @ rest) = digits n"
    and "dropWhile is_digit (digits n @ rest) = rest"
proof -
  have all: "\<forall>c\<in>set (digits n). is_digit c" using digits_all_digit by blast
  have r: "takeWhile is_digit rest = []" "dropWhile is_digit rest = rest"
    using assms by (cases rest; simp add: number_end_def)+
  show "takeWhile is_digit (digits n @ rest) = digits n"
    using all r by (simp add: takeWhile_append2)
  show "dropWhile is_digit (digits n @ rest) = rest"
    using all r by (simp add: dropWhile_append2)
qed

lemma scan_int_part_digits:
  assumes "number_end rest"
  shows "scan_int_part (digits n @ rest) = Some (digits n, rest)"
proof (cases "n = 0")
  case True
  then show ?thesis by (simp add: digits_zero scan_int_part_def)
next
  case False
  obtain c cs where d: "digits n = c # cs"
    using digits_nonempty [of n] by (cases "digits n") auto
  have "c \<noteq> 48" using digits_hd [of n] False d by simp
  moreover have "is_digit c" using digits_all_digit [of c n] d by simp
  ultimately show ?thesis
    using takeWhile_digits [OF assms, of n] d
    by (simp add: scan_int_part_def)
qed

lemma scan_fraction_end: "number_end rest \<Longrightarrow> scan_fraction rest = Some ([], rest)"
  by (cases rest) (simp_all add: scan_fraction_def number_end_def)

lemma scan_exponent_end: "number_end rest \<Longrightarrow> scan_exponent rest = Some (0, rest)"
  by (cases rest) (simp_all add: scan_exponent_def number_end_def)

lemma parse_number_nat:
  assumes "number_end rest"
  shows "parse_number (digits n @ rest) = Some (Finite (of_nat n), rest)"
proof -
  obtain c cs where d: "digits n = c # cs"
    using digits_nonempty [of n] by (cases "digits n") auto
  have "is_digit c" using digits_all_digit [of c n] d by simp
  then have "c \<noteq> 45" by (simp add: is_digit_def)
  then have "parse_number (digits n @ rest) =
      (case scan_int_part (digits n @ rest) of
           None \<Rightarrow> None
         | Some (ip, s2) \<Rightarrow>
             (case scan_fraction s2 of
                None \<Rightarrow> None
              | Some (fp, s3) \<Rightarrow>
                  (case scan_exponent s3 of
                     None \<Rightarrow> None
                   | Some (e, s4) \<Rightarrow>
                       Some (Finite (1 *
                                     (of_nat (digits_value ip) +
                                      of_nat (digits_value fp) / 10 ^ length fp) * pow10 e),
                             s4))))"
    unfolding parse_number_def d by simp
  then show ?thesis
    by (simp add: scan_int_part_digits [OF assms] scan_fraction_end [OF assms]
        scan_exponent_end [OF assms] digits_value_digits digits_value_Nil pow10_def)
qed

lemma parse_number_neg:
  assumes "number_end rest"
  shows "parse_number (45 # digits n @ rest) = Some (Finite (- of_nat n), rest)"
proof -
  have "parse_number (45 # digits n @ rest) =
      (case scan_int_part (digits n @ rest) of
           None \<Rightarrow> None
         | Some (ip, s2) \<Rightarrow>
             (case scan_fraction s2 of
                None \<Rightarrow> None
              | Some (fp, s3) \<Rightarrow>
                  (case scan_exponent s3 of
                     None \<Rightarrow> None
                   | Some (e, s4) \<Rightarrow>
                       Some (Finite (- 1 *
                                     (of_nat (digits_value ip) +
                                      of_nat (digits_value fp) / 10 ^ length fp) * pow10 e),
                             s4))))"
    unfolding parse_number_def by simp
  then show ?thesis
    by (simp add: scan_int_part_digits [OF assms] scan_fraction_end [OF assms]
        scan_exponent_end [OF assms] digits_value_digits digits_value_Nil pow10_def)
qed

lemma parse_number_int:
  assumes "number_end rest"
  shows "parse_number (int_toString i @ rest) = Some (Finite (of_int i), rest)"
proof (cases "i < 0")
  case True
  then have "(of_int i :: rat) = - of_nat (nat (- i))" by simp
  then show ?thesis
    using True parse_number_neg [OF assms, of "nat (- i)"] by (simp add: int_toString_def)
next
  case False
  then have "(of_int i :: rat) = of_nat (nat i)" by simp
  then show ?thesis
    using False parse_number_nat [OF assms, of "nat i"] by (simp add: int_toString_def)
qed

text \<open>Values, arrays and objects.\<close>

lemma skip_ws_Cons: "\<not> is_json_ws c \<Longrightarrow> skip_ws (c # r) = c # r"
  by (simp add: skip_ws_def)

lemma number_end_simps:
  "number_end []" "number_end (44 # r)" "number_end (93 # r)" "number_end (125 # r)"
  by (simp_all add: number_end_def is_digit_def)

lemma int_toString_hd:
  "\<exists>c cs. int_toString i = c # cs \<and> (c = 45 \<or> is_digit c)"
proof (cases "i < 0")
  case True
  then show ?thesis by (simp add: int_toString_def)
next
  case False
  obtain c cs where d: "digits (nat i) = c # cs"
    using digits_nonempty [of "nat i"] by (cases "digits (nat i)") auto
  then have "is_digit c" using digits_all_digit [of c "nat i"] by simp
  with d False show ?thesis by (simp add: int_toString_def)
qed

lemma print_data_hd: "\<exists>c cs. print_data d = c # cs \<and> value_start c"
proof (cases d)
  case (DInt i)
  then show ?thesis using int_toString_hd [of i] by (auto simp: value_start_def)
qed (auto simp: value_start_def quoteJSONString_def json_array_def json_object_def)

lemma value_start_not_ws: "value_start c \<Longrightarrow> \<not> is_json_ws c"
  by (auto simp: value_start_def is_json_ws_def is_digit_def)

lemma parse_value_string:
  "parse_value (Suc n) (quoteJSONString s @ rest) = Some (JString s, rest)"
proof -
  have "skip_ws (quoteJSONString s @ rest) = 34 # quote_body s @ 34 # rest"
    by (simp add: quoteJSONString_def skip_ws_Cons is_json_ws_def)
  then show ?thesis by (simp add: scan_quote_body)
qed

lemma prefix_lit_Cons: "prefix (lit (x # xs)) (c # r) \<Longrightarrow> c = of_char x"
  by (simp add: lit_def)

lemma parse_value_int:
  assumes "number_end rest"
  shows "parse_value (Suc n) (int_toString i @ rest) = Some (JNumber (Finite (of_int i)), rest)"
proof -
  from int_toString_hd [of i] obtain c cs where d: "int_toString i = c # cs"
    and c: "c = 45 \<or> is_digit c" by blast
  have ws: "skip_ws (int_toString i @ rest) = c # cs @ rest"
    using c d by (auto simp: skip_ws_Cons is_json_ws_def is_digit_def)
  have ne: "c \<noteq> 34" "c \<noteq> 91" "c \<noteq> 123"
    using c by (auto simp: is_digit_def)
  have np: "\<not> prefix (lit ''null'') (c # cs @ rest)" "\<not> prefix (lit ''true'') (c # cs @ rest)"
    "\<not> prefix (lit ''false'') (c # cs @ rest)"
    using c by (auto simp: is_digit_def dest!: prefix_lit_Cons)
  have "parse_number (c # cs @ rest) = Some (Finite (of_int i), rest)"
    using parse_number_int [OF assms, of i] d by simp
  then show ?thesis
    by (simp add: ws ne np)
qed

declare parse_value.simps [simp del] parse_elements.simps [simp del] parse_members.simps [simp del]

lemma parse_elements_data:
  assumes IH: "\<And>e n rest. e \<in> set es \<Longrightarrow> need e \<le> n \<Longrightarrow> number_end rest \<Longrightarrow>
                 parse_value n (print_data e @ rest) = Some (embed e, rest)"
    and "es \<noteq> []" and "need_list (map need es) \<le> n"
  shows "parse_elements n (joinWith 44 (map print_data es) @ 93 # rest) = Some (map embed es, rest)"
  using assms
proof (induction es arbitrary: n)
  case Nil
  then show ?case by simp
next
  case (Cons e es)
  from Cons.prems(3) obtain m where n: "n = Suc m" and m: "need e \<le> m" "need_list (map need es) \<le> m"
    by (cases n) auto
  show ?case
  proof (cases "es = []")
    case True
    have "parse_value m (print_data e @ 93 # rest) = Some (embed e, 93 # rest)"
      by (rule Cons.prems(1)) (simp_all add: m number_end_simps)
    then show ?thesis
      using True n by (simp add: parse_elements.simps(2) skip_ws_Cons is_json_ws_def)
  next
    case False
    have j: "joinWith 44 (map print_data (e # es)) @ 93 # rest =
        print_data e @ 44 # (joinWith 44 (map print_data es) @ 93 # rest)"
      using False by (simp add: joinWith_Cons)
    have v: "parse_value m (print_data e @ 44 # (joinWith 44 (map print_data es) @ 93 # rest)) =
        Some (embed e, 44 # (joinWith 44 (map print_data es) @ 93 # rest))"
      by (rule Cons.prems(1)) (simp_all add: m number_end_simps)
    have r: "parse_elements m (joinWith 44 (map print_data es) @ 93 # rest) = Some (map embed es, rest)"
      by (rule Cons.IH) (use Cons.prems(1) False m in auto)
    show ?thesis
      unfolding j n by (simp add: parse_elements.simps(2) v r skip_ws_Cons is_json_ws_def)
  qed
qed

lemma parse_members_data:
  assumes IH: "\<And>kv n rest. kv \<in> set kvs \<Longrightarrow> need (snd kv) \<le> n \<Longrightarrow> number_end rest \<Longrightarrow>
                 parse_value n (print_data (snd kv) @ rest) = Some (embed (snd kv), rest)"
    and "kvs \<noteq> []" and "need_list (map (\<lambda>kv. need (snd kv)) kvs) \<le> n"
  shows "parse_members n
           (joinWith 44 (map (\<lambda>kv. quoteJSONString (fst kv) @ 58 # print_data (snd kv)) kvs) @ 125 # rest) =
         Some (map (\<lambda>kv. (fst kv, embed (snd kv))) kvs, rest)"
  using assms
proof (induction kvs arbitrary: n)
  case Nil
  then show ?case by simp
next
  case (Cons kv kvs)
  let ?pm = "\<lambda>kv. quoteJSONString (fst kv) @ 58 # print_data (snd kv)"
  from Cons.prems(3) obtain m where n: "n = Suc m" and m: "need (snd kv) \<le> m"
    "need_list (map (\<lambda>kv. need (snd kv)) kvs) \<le> m"
    by (cases n) auto
  have key: "\<And>t. skip_ws (quoteJSONString (fst kv) @ 58 # print_data (snd kv) @ t) =
      34 # quote_body (fst kv) @ 34 # 58 # print_data (snd kv) @ t"
    by (simp add: quoteJSONString_def skip_ws_Cons is_json_ws_def)
  show ?case
  proof (cases "kvs = []")
    case True
    have "parse_value m (print_data (snd kv) @ 125 # rest) = Some (embed (snd kv), 125 # rest)"
      by (rule Cons.prems(1)) (simp_all add: m number_end_simps)
    then show ?thesis
      using True n by (simp add: parse_members.simps(2) key scan_quote_body skip_ws_Cons is_json_ws_def)
  next
    case False
    have j: "joinWith 44 (map ?pm (kv # kvs)) @ 125 # rest =
        ?pm kv @ 44 # (joinWith 44 (map ?pm kvs) @ 125 # rest)"
      using False by (simp add: joinWith_Cons)
    have v: "parse_value m (print_data (snd kv) @ 44 # (joinWith 44 (map ?pm kvs) @ 125 # rest)) =
        Some (embed (snd kv), 44 # (joinWith 44 (map ?pm kvs) @ 125 # rest))"
      by (rule Cons.prems(1)) (simp_all add: m number_end_simps)
    have r: "parse_members m (joinWith 44 (map ?pm kvs) @ 125 # rest) =
        Some (map (\<lambda>kv. (fst kv, embed (snd kv))) kvs, rest)"
      by (rule Cons.IH) (use Cons.prems(1) False m in auto)
    show ?thesis
      unfolding j n by (simp add: parse_members.simps(2) key v r scan_quote_body skip_ws_Cons is_json_ws_def)
  qed
qed

lemma put_member_fresh: "k \<notin> fst ` set acc \<Longrightarrow> put_member k v acc = acc @ [(k, v)]"
  by (induction acc) auto

lemma foldl_put_member_distinct:
  "distinct (map fst (acc @ kvs)) \<Longrightarrow>
   foldl (\<lambda>acc (k, v). put_member k v acc) acc kvs = acc @ kvs"
proof (induction kvs arbitrary: acc)
  case Nil
  then show ?case by simp
next
  case (Cons kv kvs)
  obtain k v where kv: "kv = (k, v)" by (cases kv)
  from Cons.prems have "k \<notin> fst ` set acc" by (auto simp: kv)
  then have p: "put_member k v acc = acc @ [(k, v)]" by (rule put_member_fresh)
  have "distinct (map fst ((acc @ [(k, v)]) @ kvs))" using Cons.prems by (simp add: kv)
  from Cons.IH [OF this] show ?case by (simp add: kv p)
qed

lemma object_of_members_distinct:
  "distinct (map fst kvs) \<Longrightarrow> object_of_members kvs = JObject kvs"
  using foldl_put_member_distinct [of "[]" kvs] by (simp add: object_of_members_def)

lemma parse_value_data:
  "distinct_keys d \<Longrightarrow> need d \<le> n \<Longrightarrow> number_end rest \<Longrightarrow>
   parse_value n (print_data d @ rest) = Some (embed d, rest)"
proof (induction d arbitrary: n rest)
  case (DString s)
  then obtain m where "n = Suc m" by (cases n) auto
  then show ?case by (simp add: parse_value_string)
next
  case (DInt i)
  then obtain m where "n = Suc m" by (cases n) auto
  then show ?case using DInt.prems by (simp add: parse_value_int)
next
  case (DArray es)
  from DArray.prems obtain m where n: "n = Suc m" and m: "need_list (map need es) \<le> m"
    by (cases n) auto
  show ?case
  proof (cases "es = []")
    case True
    then show ?thesis
      by (simp add: n json_array_def parse_value.simps(2) skip_ws_Cons is_json_ws_def)
  next
    case False
    then obtain e es' where es: "es = e # es'" by (cases es) auto
    from print_data_hd [of e] obtain c cs where c: "print_data e = c # cs" "value_start c" by blast
    have st: "\<exists>t. joinWith 44 (map print_data es) @ 93 # rest = c # t"
      using es c by (cases es') simp_all
    then obtain t where t: "joinWith 44 (map print_data es) @ 93 # rest = c # t" by blast
    have c93: "c \<noteq> 93" using c(2) by (auto simp: value_start_def is_digit_def)
    have el: "parse_elements m (joinWith 44 (map print_data es) @ 93 # rest) = Some (map embed es, rest)"
    proof (rule parse_elements_data [OF _ False m])
      fix e n rest assume "e \<in> set es" "need e \<le> n" "number_end rest"
      moreover have "distinct_keys e" using DArray.prems(1) \<open>e \<in> set es\<close> by (simp add: list_all_iff)
      ultimately show "parse_value n (print_data e @ rest) = Some (embed e, rest)"
        using DArray.IH by blast
    qed
    have "parse_value (Suc m) (91 # c # t) = Some (JArray (map embed es), rest)"
      using el c93 value_start_not_ws [OF c(2)] unfolding t
      by (simp add: parse_value.simps(2) skip_ws_Cons is_json_ws_def)
    then show ?thesis
      using t by (simp add: n json_array_def)
  qed
next
  case (DObject kvs)
  let ?pm = "\<lambda>kv. quoteJSONString (fst kv) @ 58 # print_data (snd kv)"
  from DObject.prems obtain m where n: "n = Suc m"
    and m: "need_list (map (\<lambda>kv. need (snd kv)) kvs) \<le> m"
    by (cases n) auto
  show ?case
  proof (cases "kvs = []")
    case True
    then show ?thesis
      by (simp add: n json_object_def parse_value.simps(2) skip_ws_Cons is_json_ws_def)
  next
    case False
    then obtain kv kvs' where kvs: "kvs = kv # kvs'" by (cases kvs) auto
    have st: "\<exists>t. joinWith 44 (map ?pm kvs) @ 125 # rest = 34 # t"
      using kvs by (cases kvs') (simp_all add: quoteJSONString_def)
    then obtain t where t: "joinWith 44 (map ?pm kvs) @ 125 # rest = 34 # t" by blast
    have me: "parse_members m (joinWith 44 (map ?pm kvs) @ 125 # rest) =
        Some (map (\<lambda>kv. (fst kv, embed (snd kv))) kvs, rest)"
    proof (rule parse_members_data [OF _ False m])
      fix kv n rest assume a: "kv \<in> set kvs" "need (snd kv) \<le> n" "number_end rest"
      have "distinct_keys (snd kv)" using DObject.prems(1) a(1) by (simp add: list_all_iff)
      moreover have "snd kv \<in> Basic_BNFs.snds kv" by (cases kv) simp
      ultimately show "parse_value n (print_data (snd kv) @ rest) = Some (embed (snd kv), rest)"
        using DObject.IH a by blast
    qed
    have dk: "distinct (map fst (map (\<lambda>kv. (fst kv, embed (snd kv))) kvs))"
      using DObject.prems(1) by (simp add: comp_def)
    have "parse_value (Suc m) (123 # 34 # t) =
        Some (JObject (map (\<lambda>kv. (fst kv, embed (snd kv))) kvs), rest)"
      using me unfolding t
      by (simp add: parse_value.simps(2) skip_ws_Cons is_json_ws_def object_of_members_distinct [OF dk])
    then show ?thesis
      using t by (simp add: n json_object_def)
  qed
qed

text \<open>The bound that \<open>parseJSON\<close> puts on the recursion suffices.\<close>

lemma need_list_le_join:
  "list_all2 (\<lambda>n l. n \<le> length l) ns ls \<Longrightarrow> need_list ns \<le> Suc (length (joinWith sep ls))"
proof (induction ns ls rule: list_all2_induct)
  case Nil
  then show ?case by simp
next
  case (Cons n ns l ls)
  show ?case
  proof (cases "ls = []")
    case True
    with Cons show ?thesis by simp
  next
    case False
    then show ?thesis using Cons by (simp add: joinWith_Cons)
  qed
qed

lemma int_toString_nonempty: "int_toString i \<noteq> []"
  using int_toString_hd [of i] by auto

lemma need_le_length: "need d \<le> length (print_data d)"
proof (induction d)
  case (DString s)
  then show ?case by (simp add: quoteJSONString_def)
next
  case (DInt i)
  then show ?case using int_toString_nonempty [of i] by (cases "int_toString i") simp_all
next
  case (DArray es)
  have "list_all2 (\<lambda>n l. n \<le> length l) (map need es) (map print_data es)"
    using DArray.IH by (simp add: list_all2_map1 list_all2_map2 list_all2_same)
  from need_list_le_join [OF this, of 44] show ?case by (simp add: json_array_def)
next
  case (DObject kvs)
  have "list_all2 (\<lambda>n l. n \<le> length l) (map (\<lambda>kv. need (snd kv)) kvs)
      (map (\<lambda>kv. quoteJSONString (fst kv) @ 58 # print_data (snd kv)) kvs)"
  proof -
    have "\<And>kv. kv \<in> set kvs \<Longrightarrow> need (snd kv) \<le> length (print_data (snd kv))"
    proof -
      fix kv assume "kv \<in> set kvs"
      moreover have "snd kv \<in> Basic_BNFs.snds kv" by (cases kv) simp
      ultimately show "need (snd kv) \<le> length (print_data (snd kv))" using DObject.IH by blast
    qed
    then show ?thesis
      by (fastforce simp: list_all2_map1 list_all2_map2 list_all2_same)
  qed
  from need_list_le_join [OF this, of 44] show ?case by (simp add: json_object_def)
qed

lemma parseJSON_print_data:
  assumes "distinct_keys d"
  shows "parseJSON (print_data d) = Some (embed d)"
proof -
  have "need d \<le> 2 * length (print_data d) + 2"
    using need_le_length [of d] by simp
  from parse_value_data [OF assms this number_end_simps(1)]
  show ?thesis by (simp add: parseJSON_def skip_ws_def)
qed

text \<open>The serialisation of the archive list is the serialisation of its datum.\<close>

lemma quoted_keys:
  "quoteJSONString (lit ''id'') = 34 # lit ''id'' @ [34]"
  "quoteJSONString (lit ''title'') = 34 # lit ''title'' @ [34]"
  "quoteJSONString (lit ''uri'') = 34 # lit ''uri'' @ [34]"
  "quoteJSONString (lit ''role'') = 34 # lit ''role'' @ [34]"
  "quoteJSONString (lit ''text'') = 34 # lit ''text'' @ [34]"
  "quoteJSONString (lit ''imageUrl'') = 34 # lit ''imageUrl'' @ [34]"
  "quoteJSONString (lit ''timestamp'') = 34 # lit ''timestamp'' @ [34]"
  "quoteJSONString (lit ''sources'') = 34 # lit ''sources'' @ [34]"
  "quoteJSONString (lit ''messages'') = 34 # lit ''messages'' @ [34]"
  by code_simp+

lemma json_member_keys:
  "json_member ''id'' v = quoteJSONString (lit ''id'') @ 58 # v"
  "json_member ''title'' v = quoteJSONString (lit ''title'') @ 58 # v"
  "json_member ''uri'' v = quoteJSONString (lit ''uri'') @ 58 # v"
  "json_member ''role'' v = quoteJSONString (lit ''role'') @ 58 # v"
  "json_member ''text'' v = quoteJSONString (lit ''text'') @ 58 # v"
  "json_member ''imageUrl'' v = quoteJSONString (lit ''imageUrl'') @ 58 # v"
  "json_member ''timestamp'' v = quoteJSONString (lit ''timestamp'') @ 58 # v"
  "json_member ''sources'' v = quoteJSONString (lit ''sources'') @ 58 # v"
  "json_member ''messages'' v = quoteJSONString (lit ''messages'') @ 58 # v"
  unfolding quoted_keys by (simp_all add: json_member_def)

lemma key_distinct:
  "distinct [lit ''title'', lit ''uri'']"
  "distinct [lit ''id'', lit ''role'', lit ''text'', lit ''imageUrl'', lit ''timestamp'', lit ''sources'']"
  "distinct [lit ''id'', lit ''title'', lit ''messages'', lit ''timestamp'']"
  by code_simp+

lemma print_sourceData: "print_data (sourceData s) = stringifySource s"
  by (cases "src_title s"; cases "src_uri s")
     (simp_all add: sourceData_def stringifySource_def optional_datum_def optional_member_def
        json_member_keys)

lemma print_messageData: "print_data (messageData m) = stringifyMessage m"
  by (cases "msg_imageUrl m"; cases "msg_sources m")
     (simp_all add: messageData_def stringifyMessage_def stringifyRole_def optional_datum_def
        optional_member_def json_member_keys print_sourceData cong: map_cong)

lemma print_sessionData: "print_data (sessionData s) = stringifySession s"
  by (simp add: sessionData_def stringifySession_def json_member_keys print_messageData
      cong: map_cong)

lemma print_sessionsData: "print_data (sessionsData xs) = stringifySessions xs"
  by (simp add: sessionsData_def stringifySessions_def print_sessionData cong: map_cong)

lemma lit_keys_neq:
  "lit ''id'' \<noteq> lit ''imageUrl''"
  "lit ''id'' \<noteq> lit ''messages''"
  "lit ''id'' \<noteq> lit ''role''"
  "lit ''id'' \<noteq> lit ''sources''"
  "lit ''id'' \<noteq> lit ''text''"
  "lit ''id'' \<noteq> lit ''timestamp''"
  "lit ''id'' \<noteq> lit ''title''"
  "lit ''imageUrl'' \<noteq> lit ''id''"
  "lit ''imageUrl'' \<noteq> lit ''role''"
  "lit ''imageUrl'' \<noteq> lit ''sources''"
  "lit ''imageUrl'' \<noteq> lit ''text''"
  "lit ''imageUrl'' \<noteq> lit ''timestamp''"
  "lit ''messages'' \<noteq> lit ''id''"
  "lit ''messages'' \<noteq> lit ''timestamp''"
  "lit ''messages'' \<noteq> lit ''title''"
  "lit ''role'' \<noteq> lit ''id''"
  "lit ''role'' \<noteq> lit ''imageUrl''"
  "lit ''role'' \<noteq> lit ''sources''"
  "lit ''role'' \<noteq> lit ''text''"
  "lit ''role'' \<noteq> lit ''timestamp''"
  "lit ''sources'' \<noteq> lit ''id''"
  "lit ''sources'' \<noteq> lit ''imageUrl''"
  "lit ''sources'' \<noteq> lit ''role''"
  "lit ''sources'' \<noteq> lit ''text''"
  "lit ''sources'' \<noteq> lit ''timestamp''"
  "lit ''text'' \<noteq> lit ''id''"
  "lit ''text'' \<noteq> lit ''imageUrl''"
  "lit ''text'' \<noteq> lit ''role''"
  "lit ''text'' \<noteq> lit ''sources''"
  "lit ''text'' \<noteq> lit ''timestamp''"
  "lit ''timestamp'' \<noteq> lit ''id''"
  "lit ''timestamp'' \<noteq> lit ''imageUrl''"
  "lit ''timestamp'' \<noteq> lit ''messages''"
  "lit ''timestamp'' \<noteq> lit ''role''"
  "lit ''timestamp'' \<noteq> lit ''sources''"
  "lit ''timestamp'' \<noteq> lit ''text''"
  "lit ''timestamp'' \<noteq> lit ''title''"
  "lit ''title'' \<noteq> lit ''id''"
  "lit ''title'' \<noteq> lit ''messages''"
  "lit ''title'' \<noteq> lit ''timestamp''"
  "lit ''title'' \<noteq> lit ''uri''"
  "lit ''uri'' \<noteq> lit ''title''"
  by code_simp+

lemma distinct_keys_sourceData: "distinct_keys (sourceData s)"
  using key_distinct(1)
  by (cases "src_title s"; cases "src_uri s") (simp_all add: sourceData_def optional_datum_def)

lemma distinct_keys_messageData: "distinct_keys (messageData m)"
  using key_distinct(2)
  by (cases "msg_imageUrl m"; cases "msg_sources m")
     (simp_all add: messageData_def optional_datum_def list_all_iff distinct_keys_sourceData)

lemma distinct_keys_sessionData: "distinct_keys (sessionData s)"
  using key_distinct(3)
  by (simp add: sessionData_def list_all_iff distinct_keys_messageData)

lemma distinct_keys_sessionsData: "distinct_keys (sessionsData xs)"
  by (simp add: sessionsData_def list_all_iff distinct_keys_sessionData)

lemma those_map_Some: "(\<And>x. x \<in> set xs \<Longrightarrow> f x = Some (g x)) \<Longrightarrow> those (map f xs) = Some (map g xs)"
  by (induction xs) simp_all

lemma asSource_sourceData: "asSource (embed (sourceData s)) = Some s"
  using lit_keys_neq
  by (cases "src_title s"; cases "src_uri s")
     (simp_all add: sourceData_def optional_datum_def asSource_def optional_string_field_def)

lemma int_field_of_int:
  "map_of kvs (lit key) = Some (JNumber (Finite (of_int i))) \<Longrightarrow> int_field kvs key = Some i"
  by (simp add: int_field_def)

lemma asRole_names: "asRole (case r of User \<Rightarrow> lit ''user'' | Model \<Rightarrow> lit ''model'') = Some r"
proof -
  have "lit ''model'' \<noteq> lit ''user''" by code_simp
  then show ?thesis by (cases r) (simp_all add: asRole_def)
qed

lemma asMessage_messageData: "asMessage (embed (messageData m)) = Some m"
proof -
  have src: "those (map (\<lambda>s. asSource (embed (sourceData s))) ss) = Some ss" for ss
    using those_map_Some [of ss "\<lambda>s. asSource (embed (sourceData s))" "\<lambda>s. s"]
    by (simp add: asSource_sourceData)
  show ?thesis
    using lit_keys_neq
    by (cases "msg_imageUrl m"; cases "msg_sources m")
       (simp_all add: messageData_def optional_datum_def asMessage_def string_field_def
          optional_string_field_def int_field_def sources_field_def asRole_names src comp_def)
qed

lemma asSession_sessionData: "asSession (embed (sessionData s)) = Some s"
proof -
  have ms: "those (map (\<lambda>m. asMessage (embed (messageData m))) ms) = Some ms" for ms
    using those_map_Some [of ms "\<lambda>m. asMessage (embed (messageData m))" "\<lambda>m. m"]
    by (simp add: asMessage_messageData)
  show ?thesis
    using lit_keys_neq
    by (simp add: sessionData_def asSession_def string_field_def int_field_def
        messages_field_def ms comp_def)
qed

lemma asSessions_sessionsData: "asSessions (embed (sessionsData xs)) = Some xs"
  using those_map_Some [of xs "\<lambda>s. asSession (embed (sessionData s))" "\<lambda>s. s"]
  by (simp add: sessionsData_def asSessions_def asSession_sessionData comp_def)

lemma parseSessions_stringifySessions: "parseSessions (stringifySessions xs) = Some xs"
  using parseJSON_print_data [OF distinct_keys_sessionsData, of xs]
  by (simp add: parseSessions_def print_sessionsData asSessions_sessionsData)

subsection \<open>Saved chat sessions\<close>

lemma stringifySessions_nonempty: "stringifySessions xs \<noteq> []"
  by (simp add: stringifySessions_def json_array_def)

lemma loadArchives_after_save:
  assumes "parse (stringify xs) = Some xs" and "stringify xs \<noteq> []"
  shows "archives (loadArchives parse (store(CHAT_ARCHIVE_KEY \<mapsto> stringify xs)) st) = xs"
  using assms by (simp add: loadArchives_def)

lemma saveCurrentSession_Cons:
  "saveCurrentSession stringify now_id now_ts (first # rest) st store =
     (st\<lparr> archives := newSession now_id now_ts first (first # rest) # archives st,
          isArchivesOpen := True \<rparr>,
      store(CHAT_ARCHIVE_KEY \<mapsto>
              stringify (newSession now_id now_ts first (first # rest) # archives st)))"
  by (simp add: saveCurrentSession_def Let_def)

text \<open>
  Claim C9. Saving a chat that has messages puts the new session in front of the archive
  list, with the current time as its id and its timestamp and the messages unchanged, and
  writes the serialised new list under the archive key. Loading in a fresh instance, from
  the store that the save left, gives the same list as the one in memory after the save:
  every session with its id, title, messages and timestamp, in the same order, the newest
  first. \<^verbatim>\<open>JSON.stringify\<close> and \<^verbatim>\<open>JSON.parse\<close> are the platform's: the statement holds
  for every pair of them that reads back the serialised list (to a non-empty text), and,
  without any assumption, for the reference codec. A chat without messages is not saved:
  state and store stay as they are.
\<close>

theorem saved_session_round_trip:
  "(messages = [] \<longrightarrow>
      saveCurrentSession stringify now_id now_ts messages st store = (st, store)) \<and>
   (\<forall>first rest. messages = first # rest \<longrightarrow>
      archives (fst (saveCurrentSession stringify now_id now_ts messages st store)) =
        newSession now_id now_ts first messages # archives st \<and>
      session_id (newSession now_id now_ts first messages) = int_toString now_id \<and>
      session_messages (newSession now_id now_ts first messages) = messages \<and>
      session_timestamp (newSession now_id now_ts first messages) = now_ts \<and>
      snd (saveCurrentSession stringify now_id now_ts messages st store) CHAT_ARCHIVE_KEY =
        Some (stringify (newSession now_id now_ts first messages # archives st)) \<and>
      (parse (stringify (newSession now_id now_ts first messages # archives st)) =
         Some (newSession now_id now_ts first messages # archives st) \<and>
       stringify (newSession now_id now_ts first messages # archives st) \<noteq> [] \<longrightarrow>
       archives (loadArchives parse
                  (snd (saveCurrentSession stringify now_id now_ts messages st store))
                  chat_initial) =
         archives (fst (saveCurrentSession stringify now_id now_ts messages st store))) \<and>
      archives (loadArchives parseSessions
                 (snd (saveCurrentSession stringifySessions now_id now_ts messages st store))
                 chat_initial) =
        newSession now_id now_ts first messages # archives st)"
proof (intro conjI allI impI)
  assume "messages = []"
  then show "saveCurrentSession stringify now_id now_ts messages st store = (st, store)"
    by (simp add: saveCurrentSession_def)
next
  fix first rest assume m: "messages = first # rest"
  show "archives (fst (saveCurrentSession stringify now_id now_ts messages st store)) =
        newSession now_id now_ts first messages # archives st"
    by (simp add: m saveCurrentSession_Cons)
  show "session_id (newSession now_id now_ts first messages) = int_toString now_id"
    "session_messages (newSession now_id now_ts first messages) = messages"
    "session_timestamp (newSession now_id now_ts first messages) = now_ts"
    by (simp_all add: newSession_def Let_def)
  show "snd (saveCurrentSession stringify now_id now_ts messages st store) CHAT_ARCHIVE_KEY =
        Some (stringify (newSession now_id now_ts first messages # archives st))"
    by (simp add: m saveCurrentSession_Cons)
  show "archives (loadArchives parseSessions
                 (snd (saveCurrentSession stringifySessions now_id now_ts messages st store))
                 chat_initial) =
        newSession now_id now_ts first messages # archives st"
    unfolding m saveCurrentSession_Cons snd_conv
    by (rule loadArchives_after_save [of parseSessions stringifySessions,
          OF parseSessions_stringifySessions stringifySessions_nonempty])
next
  fix first rest
  assume m: "messages = first # rest"
    and c: "parse (stringify (newSession now_id now_ts first messages # archives st)) =
         Some (newSession now_id now_ts first messages # archives st) \<and>
       stringify (newSession now_id now_ts first messages # archives st) \<noteq> []"
  from c have c1: "parse (stringify (newSession now_id now_ts first (first # rest) # archives st)) =
         Some (newSession now_id now_ts first (first # rest) # archives st)"
    and c2: "stringify (newSession now_id now_ts first (first # rest) # archives st) \<noteq> []"
    by (simp_all add: m)
  show "archives (loadArchives parse
                  (snd (saveCurrentSession stringify now_id now_ts messages st store))
                  chat_initial) =
         archives (fst (saveCurrentSession stringify now_id now_ts messages st store))"
    unfolding m saveCurrentSession_Cons snd_conv fst_conv
    using loadArchives_after_save [of parse stringify, OF c1 c2] by simp
qed

text \<open>An instance: a chat of two messages saved in front of an archive of one session.\<close>

lemma example_new_session:
  "newSession 1700000001000 1700000001001 (hd exampleMessages) exampleMessages =
     \<lparr> session_id = lit ''1700000001000'',
       session_title = lit ''\"Cooper\"?'' @ [10, 0xD83D, 0xDC41, 0xD800, 92, 233],
       session_messages = exampleMessages,
       session_timestamp = 1700000001001 \<rparr>"
  by code_simp

lemma example_messages_Cons: "exampleMessages = hd exampleMessages # tl exampleMessages"
  by (simp add: exampleMessages_def)

theorem saved_session_round_trip_witness:
  "archives (loadArchives parseSessions
      (snd (saveCurrentSession stringifySessions 1700000001000 1700000001001 exampleMessages
              \<lparr> archives = exampleArchive, isArchivesOpen = False \<rparr> Map.empty))
      chat_initial) =
     \<lparr> session_id = lit ''1700000001000'',
       session_title = lit ''\"Cooper\"?'' @ [10, 0xD83D, 0xDC41, 0xD800, 92, 233],
       session_messages = exampleMessages,
       session_timestamp = 1700000001001 \<rparr> # exampleArchive"
proof -
  note t = saved_session_round_trip
    [of exampleMessages stringifySessions 1700000001000 1700000001001
        "\<lparr> archives = exampleArchive, isArchivesOpen = False \<rparr>" Map.empty parseSessions,
     THEN conjunct2, rule_format, OF example_messages_Cons]
  from t have "archives (loadArchives parseSessions
      (snd (saveCurrentSession stringifySessions 1700000001000 1700000001001 exampleMessages
              \<lparr> archives = exampleArchive, isArchivesOpen = False \<rparr> Map.empty))
      chat_initial) =
      newSession 1700000001000 1700000001001 (hd exampleMessages) exampleMessages # exampleArchive"
    by simp
  then show ?thesis
    unfolding example_new_session .
qed

end
